theory Spec2Isabelle
  imports Main "HOL-Library.Word"
begin

unbundle bit_operations_syntax

section \<open>Fault classification (fault_handler.c)\<close>

type_synonym u8 = "8 word"
type_synonym u32 = "32 word"

text \<open>The enumeration \<^verbatim>\<open>fault_class_t\<close>, with the integer value C gives each enumerator.\<close>

datatype fault_class_t = FAULT_CLASS_RECOVERABLE | FAULT_CLASS_DEGRADED | FAULT_CLASS_FATAL

fun fault_class_value :: "fault_class_t \<Rightarrow> u32" where
  "fault_class_value FAULT_CLASS_RECOVERABLE = 0"
| "fault_class_value FAULT_CLASS_DEGRADED = 1"
| "fault_class_value FAULT_CLASS_FATAL = 2"

text \<open>
  \<^verbatim>\<open>analyze_cfsr\<close> is three guarded blocks, each with early returns, and a final
  \<^verbatim>\<open>return FAULT_CLASS_FATAL\<close>. Each block is a function that yields \<open>Some\<close> class when
  one of its returns fires and \<open>None\<close> when control falls through to the next block.
\<close>

definition check_mmfsr :: "u32 \<Rightarrow> fault_class_t option" where
  "check_mmfsr v =
     (if v AND 0xFF \<noteq> 0 then
        (if v AND push_bit 0 1 \<noteq> 0 then Some FAULT_CLASS_FATAL
         else if v AND push_bit 1 1 \<noteq> 0 then Some FAULT_CLASS_FATAL
         else None)
      else None)"

definition check_bfsr :: "u32 \<Rightarrow> fault_class_t option" where
  "check_bfsr v =
     (if v AND 0xFF00 \<noteq> 0 then
        (if v AND push_bit 8 1 \<noteq> 0 then Some FAULT_CLASS_FATAL
         else if v AND push_bit 9 1 \<noteq> 0 then Some FAULT_CLASS_DEGRADED
         else if v AND push_bit 10 1 \<noteq> 0 then Some FAULT_CLASS_DEGRADED
         else None)
      else None)"

definition check_ufsr :: "u32 \<Rightarrow> fault_class_t option" where
  "check_ufsr v =
     (if v AND 0xFFFF0000 \<noteq> 0 then
        (if v AND push_bit 16 1 \<noteq> 0 then Some FAULT_CLASS_FATAL
         else if v AND push_bit 17 1 \<noteq> 0 then Some FAULT_CLASS_FATAL
         else if v AND push_bit 18 1 \<noteq> 0 then Some FAULT_CLASS_FATAL
         else if v AND push_bit 24 1 \<noteq> 0 then Some FAULT_CLASS_RECOVERABLE
         else None)
      else None)"

definition analyze_cfsr :: "u32 \<Rightarrow> fault_class_t" where
  "analyze_cfsr v =
     (case check_mmfsr v of
        Some c \<Rightarrow> c
      | None \<Rightarrow>
          (case check_bfsr v of
             Some c \<Rightarrow> c
           | None \<Rightarrow>
               (case check_ufsr v of
                  Some c \<Rightarrow> c
                | None \<Rightarrow> FAULT_CLASS_FATAL)))"

text \<open>The named status bits the classifier tests, and the mask of all nine of them.\<close>

definition IACCVIOL :: u32 where "IACCVIOL = push_bit 0 1"
definition DACCVIOL :: u32 where "DACCVIOL = push_bit 1 1"
definition IBUSERR :: u32 where "IBUSERR = push_bit 8 1"
definition PRECISERR :: u32 where "PRECISERR = push_bit 9 1"
definition IMPRECISERR :: u32 where "IMPRECISERR = push_bit 10 1"
definition UNDEFINSTR :: u32 where "UNDEFINSTR = push_bit 16 1"
definition INVSTATE :: u32 where "INVSTATE = push_bit 17 1"
definition INVPC :: u32 where "INVPC = push_bit 18 1"
definition DIVBYZERO :: u32 where "DIVBYZERO = push_bit 24 1"

definition known_fault_bits :: u32 where
  "known_fault_bits =
     IACCVIOL OR DACCVIOL OR IBUSERR OR PRECISERR OR IMPRECISERR OR
     UNDEFINSTR OR INVSTATE OR INVPC OR DIVBYZERO"

text \<open>The test \<^verbatim>\<open>if (cfsr & b)\<close> of the source, and the three groups of tested bits.\<close>

definition bit_set :: "u32 \<Rightarrow> u32 \<Rightarrow> bool" where
  "bit_set v b = (v AND b \<noteq> 0)"

definition mem_access_violation :: "u32 \<Rightarrow> bool" where
  "mem_access_violation v = (bit_set v IACCVIOL \<or> bit_set v DACCVIOL)"

definition bus_error :: "u32 \<Rightarrow> bool" where
  "bus_error v = (bit_set v IBUSERR \<or> bit_set v PRECISERR \<or> bit_set v IMPRECISERR)"

definition usage_fatal :: "u32 \<Rightarrow> bool" where
  "usage_fatal v = (bit_set v UNDEFINSTR \<or> bit_set v INVSTATE \<or> bit_set v INVPC)"

section \<open>The fault log and the common fault handler (fault_handler.c)\<close>

text \<open>The struct \<^verbatim>\<open>fault_record_t\<close>: sixteen 32-bit fields, the checksum last.\<close>

record fault_record_t =
  r0 :: u32
  r1 :: u32
  r2 :: u32
  r3 :: u32
  r12 :: u32
  lr :: u32
  pc :: u32
  psr :: u32
  cfsr :: u32
  hfsr :: u32
  dfsr :: u32
  mmfar :: u32
  bfar :: u32
  afsr :: u32
  timestamp :: u32
  crc :: u32

definition FAULT_LOG_MAX_ENTRIES :: u32 where
  "FAULT_LOG_MAX_ENTRIES = 16"

text \<open>
  \<^verbatim>\<open>crc32_calculate\<close> is declared in \<^verbatim>\<open>crc32.h\<close>, which is not among the sources, so
  every function that calls it takes it as the parameter \<open>crc32_calculate\<close>. It is applied
  to the first \<^verbatim>\<open>sizeof(fault_record_t) - sizeof(uint32_t)\<close> = 60 bytes of a record: the
  fifteen fields before \<^verbatim>\<open>crc\<close>, each as four bytes, least significant first (the
  byte order of the Cortex-M targets the handler is written for).
\<close>

definition le_bytes :: "u32 \<Rightarrow> u8 list" where
  "le_bytes w = [ucast w, ucast (drop_bit 8 w), ucast (drop_bit 16 w), ucast (drop_bit 24 w)]"

definition record_bytes :: "fault_record_t \<Rightarrow> u8 list" where
  "record_bytes r =
     concat (map le_bytes
       [r0 r, r1 r, r2 r, r3 r, r12 r, lr r, pc r, psr r,
        cfsr r, hfsr r, dfsr r, mmfar r, bfar r, afsr r, timestamp r])"

text \<open>
  What the handler does to the outside world, in program order: stores to the log array,
  calls into other modules, and writes to the hardware fault-status registers.
\<close>

datatype degrade_reason_t = DEGRADE_REASON_BUS_FAULT
datatype safe_state_reason_t = SAFE_STATE_CPU_FAULT

datatype fh_event =
    LogStore nat fault_record_t
  | NvmFlushAsync
  | ScbWriteCFSR u32
  | ScbWriteHFSR u32
  | StackPcSkip
  | EnterDegradedMode degrade_reason_t
  | EnterSafeState safe_state_reason_t
  | NvicSystemReset

text \<open>
  The globals \<^verbatim>\<open>g_fault_log\<close> (an array of 16 records, indexed here by \<open>nat\<close>; every
  index the code computes is reduced modulo 16) and \<^verbatim>\<open>g_fault_count\<close>, with the trace
  of events so far.
\<close>

record fault_sys =
  g_fault_log :: "nat \<Rightarrow> fault_record_t"
  g_fault_count :: u32
  events :: "fh_event list"

text \<open>
  \<^verbatim>\<open>store_fault_record\<close>: copy the record into slot \<^verbatim>\<open>g_fault_count % 16\<close>, overwrite
  the slot's \<^verbatim>\<open>crc\<close> with the checksum of the slot's first 60 bytes, increment the
  counter (a \<^verbatim>\<open>uint32_t\<close>: it wraps), and request the flush. The event \<open>LogStore\<close>
  carries the slot and the slot's content after both assignments.
\<close>

definition store_fault_record ::
  "(u8 list \<Rightarrow> u32) \<Rightarrow> fault_record_t \<Rightarrow> fault_sys \<Rightarrow> fault_sys" where
  "store_fault_record crc32_calculate record s =
     (let index = unat (g_fault_count s mod FAULT_LOG_MAX_ENTRIES);
          log1 = (g_fault_log s)(index := record);
          log2 = log1(index := (log1 index)\<lparr>crc := crc32_calculate (record_bytes (log1 index))\<rparr>)
      in s\<lparr>g_fault_log := log2,
            g_fault_count := g_fault_count s + 1,
            events := events s @ [LogStore index (log2 index), NvmFlushAsync]\<rparr>)"

text \<open>The hardware registers the handler reads, the system tick, and the indeterminate
  value of the local record's \<^verbatim>\<open>crc\<close> field, which the handler never initialises.\<close>

record fh_env =
  CFSR :: u32
  HFSR :: u32
  DFSR :: u32
  MMFAR :: u32
  BFAR :: u32
  AFSR :: u32
  system_tick :: u32
  uninit_crc :: u32

text \<open>
  The \<^verbatim>\<open>switch\<close> of \<^verbatim>\<open>fault_handler_common\<close>, on the integer value of the class:
  \<^verbatim>\<open>case FAULT_CLASS_RECOVERABLE\<close> advances the stacked program counter and returns,
  \<^verbatim>\<open>case FAULT_CLASS_DEGRADED\<close> enters degraded mode and returns, and
  \<^verbatim>\<open>case FAULT_CLASS_FATAL: default:\<close> enters the safe state, leaves the switch and
  reaches \<^verbatim>\<open>NVIC_SystemReset\<close>.
\<close>

definition escalate ::
  "u32 \<Rightarrow> (nat \<Rightarrow> u32) \<Rightarrow> fault_sys \<Rightarrow> (nat \<Rightarrow> u32) \<times> fault_sys" where
  "escalate cls stack_frame s =
     (if cls = fault_class_value FAULT_CLASS_RECOVERABLE then
        (stack_frame(6 := stack_frame 6 + 2), s\<lparr>events := events s @ [StackPcSkip]\<rparr>)
      else if cls = fault_class_value FAULT_CLASS_DEGRADED then
        (stack_frame, s\<lparr>events := events s @ [EnterDegradedMode DEGRADE_REASON_BUS_FAULT]\<rparr>)
      else
        (stack_frame,
         s\<lparr>events := events s @ [EnterSafeState SAFE_STATE_CPU_FAULT, NvicSystemReset]\<rparr>))"

definition capture_record :: "fh_env \<Rightarrow> (nat \<Rightarrow> u32) \<Rightarrow> fault_record_t" where
  "capture_record env stack_frame =
     \<lparr>r0 = stack_frame 0, r1 = stack_frame 1, r2 = stack_frame 2, r3 = stack_frame 3,
      r12 = stack_frame 4, lr = stack_frame 5, pc = stack_frame 6, psr = stack_frame 7,
      cfsr = CFSR env, hfsr = HFSR env, dfsr = DFSR env, mmfar = MMFAR env,
      bfar = BFAR env, afsr = AFSR env, timestamp = system_tick env,
      crc = uninit_crc env\<rparr>"

definition fault_handler_common ::
  "(u8 list \<Rightarrow> u32) \<Rightarrow> fh_env \<Rightarrow> (nat \<Rightarrow> u32) \<Rightarrow> u32 \<Rightarrow> fault_sys
     \<Rightarrow> (nat \<Rightarrow> u32) \<times> fault_sys" where
  "fault_handler_common crc32_calculate env stack_frame fault_type s =
     (let record = capture_record env stack_frame;
          s1 = store_fault_record crc32_calculate record s;
          fault_class = analyze_cfsr (cfsr record);
          s2 = s1\<lparr>events := events s1 @ [ScbWriteCFSR (cfsr record), ScbWriteHFSR (hfsr record)]\<rparr>
      in escalate (fault_class_value fault_class) stack_frame s2)"

text \<open>
  \<^verbatim>\<open>fault_get_log\<close>. The caller's buffer is memory indexed from 0; the loop variable and
  the count are \<^verbatim>\<open>uint32_t\<close>. A slot whose stored \<^verbatim>\<open>crc\<close> equals the recomputed one is
  copied whole; otherwise only \<^verbatim>\<open>pc\<close> and \<^verbatim>\<open>timestamp\<close> of the buffer entry are
  assigned and its other fields stay as the caller's buffer held them.
\<close>

function get_log_loop ::
  "(u8 list \<Rightarrow> u32) \<Rightarrow> fault_sys \<Rightarrow> u32 \<Rightarrow> u32 \<Rightarrow> (nat \<Rightarrow> fault_record_t)
     \<Rightarrow> (nat \<Rightarrow> fault_record_t)" where
  "get_log_loop crc32_calculate s count i buffer =
     (if i < count then
        (let index = unat ((g_fault_count s - count + i) mod FAULT_LOG_MAX_ENTRIES);
             expected_crc = crc32_calculate (record_bytes (g_fault_log s index))
         in get_log_loop crc32_calculate s count (i + 1)
              (if crc (g_fault_log s index) = expected_crc
               then buffer(unat i := g_fault_log s index)
               else buffer(unat i := (buffer (unat i))\<lparr>pc := 0xDEADBEEF, timestamp := 0\<rparr>)))
      else buffer)"
  by pat_completeness auto
termination
proof (relation "measure (\<lambda>(f, s, count, i, buffer). unat count - unat i)")
  show "wf (measure (\<lambda>(f, s, count, i, buffer). unat count - unat i))"
    by simp
next
  fix crc32_calculate :: "u8 list \<Rightarrow> u32" and s :: fault_sys and count i :: u32
    and buffer :: "nat \<Rightarrow> fault_record_t" and x xa
  assume "i < count"
  then have "unat (i + 1) = Suc (unat i)" and "unat i < unat count"
    by unat_arith+
  then show "((crc32_calculate, s, count, i + 1,
        if crc (g_fault_log s x) = xa then buffer(unat i := g_fault_log s x)
        else buffer(unat i := (buffer (unat i))\<lparr>pc := 0xDEADBEEF, timestamp := 0\<rparr>)),
       (crc32_calculate, s, count, i, buffer))
      \<in> measure (\<lambda>(f, s, count, i, buffer). unat count - unat i)"
    by simp
qed

definition fault_get_log ::
  "(u8 list \<Rightarrow> u32) \<Rightarrow> fault_sys \<Rightarrow> (nat \<Rightarrow> fault_record_t) \<Rightarrow> u32
     \<Rightarrow> (nat \<Rightarrow> fault_record_t) \<times> u32" where
  "fault_get_log crc32_calculate s buffer max_count =
     (let count = (if g_fault_count s < max_count then g_fault_count s else max_count)
      in (get_log_loop crc32_calculate s count 0 buffer, count))"

text \<open>\<^verbatim>\<open>fault_clear_log\<close>: the counter is reset and the \<^verbatim>\<open>crc\<close> of each of the 16 slots is
  set to 0.\<close>

definition fault_clear_log :: "fault_sys \<Rightarrow> fault_sys" where
  "fault_clear_log s =
     s\<lparr>g_fault_count := 0,
       g_fault_log := fold (\<lambda>i lg. lg(i := (lg i)\<lparr>crc := 0\<rparr>))
                        [0 ..< unat FAULT_LOG_MAX_ENTRIES] (g_fault_log s)\<rparr>"

text \<open>A record passes the integrity check of \<^verbatim>\<open>fault_get_log\<close> when its stored \<^verbatim>\<open>crc\<close>
  equals the checksum recomputed over its other fields.\<close>

definition record_intact :: "(u8 list \<Rightarrow> u32) \<Rightarrow> fault_record_t \<Rightarrow> bool" where
  "record_intact crc32_calculate r = (crc r = crc32_calculate (record_bytes r))"

text \<open>A run of the handler's storing step over a list of records, oldest first.\<close>

fun store_all :: "(u8 list \<Rightarrow> u32) \<Rightarrow> fault_record_t list \<Rightarrow> fault_sys \<Rightarrow> fault_sys" where
  "store_all crc32_calculate [] s = s"
| "store_all crc32_calculate (r # rs) s =
     store_all crc32_calculate rs (store_fault_record crc32_calculate r s)"

text \<open>
  Names for what the read loop computes: the slot that output position \<open>j\<close> of a read of
  \<open>count\<close> records comes from, the entry the loop leaves at that position, and a record as
  \<^verbatim>\<open>store_fault_record\<close> leaves it in its slot.
\<close>

definition read_slot :: "fault_sys \<Rightarrow> u32 \<Rightarrow> nat \<Rightarrow> nat" where
  "read_slot s count j = (unat (g_fault_count s) - unat count + j) mod 16"

definition read_entry ::
  "(u8 list \<Rightarrow> u32) \<Rightarrow> fault_sys \<Rightarrow> u32 \<Rightarrow> (nat \<Rightarrow> fault_record_t) \<Rightarrow> nat \<Rightarrow> fault_record_t" where
  "read_entry crc32_calculate s count buffer j =
     (if record_intact crc32_calculate (g_fault_log s (read_slot s count j))
      then g_fault_log s (read_slot s count j)
      else (buffer j)\<lparr>pc := 0xDEADBEEF, timestamp := 0\<rparr>)"

definition stored :: "(u8 list \<Rightarrow> u32) \<Rightarrow> fault_record_t \<Rightarrow> fault_record_t" where
  "stored crc32_calculate r = r\<lparr>crc := crc32_calculate (record_bytes r)\<rparr>"

text \<open>Sample data for the concrete instances below: a record of zeros, and the byte sum
  as a stand-in for the checksum function where a concrete one is needed.\<close>

definition zero_record :: fault_record_t where
  "zero_record =
     \<lparr>r0 = 0, r1 = 0, r2 = 0, r3 = 0, r12 = 0, lr = 0, pc = 0, psr = 0,
      cfsr = 0, hfsr = 0, dfsr = 0, mmfar = 0, bfar = 0, afsr = 0, timestamp = 0, crc = 0\<rparr>"

definition sample_checksum :: "u8 list \<Rightarrow> u32" where
  "sample_checksum bs = sum_list (map ucast bs)"

section \<open>The watchdog (watchdog.cpp)\<close>

definition WDT_DEFAULT_TIMEOUT_MS :: u32 where
  "WDT_DEFAULT_TIMEOUT_MS = 100"

definition WDT_TIMING_TOLERANCE_PERCENT :: u32 where
  "WDT_TIMING_TOLERANCE_PERCENT = 10"

text \<open>The data members of class \<^verbatim>\<open>Watchdog\<close>.\<close>

record Watchdog =
  m_timeout_ms :: u32
  m_started :: bool
  m_last_kick_time :: u32
  m_kick_count :: u32
  m_late_kick_count :: u32

text \<open>
  The constants of \<^verbatim>\<open>hw_wdt.h\<close>, which is not among the sources, are parameters.
\<close>

record wdt_hw =
  WDT_CLOCK_HZ :: u32
  WDT_CTRL_ENABLE :: u32
  WDT_CTRL_RESET_ON_TIMEOUT :: u32
  WDT_KICK_KEY :: u32

datatype DiagCode =
    WDT_INVALID_TIMEOUT | WDT_ALREADY_STARTED | WDT_STARTED | WDT_LATE_KICK
  | WDT_INIT | WDT_TIMEOUT

text \<open>What the watchdog does to the outside world, in program order: diagnostic log
  calls with their arguments, writes to the registers of \<^verbatim>\<open>HW_WDT\<close>, and the safe-state
  call of the timeout interrupt.\<close>

datatype wd_event =
    DiagError DiagCode "u32 list"
  | DiagWarn DiagCode "u32 list"
  | DiagInfo DiagCode "u32 list"
  | DiagEmergency DiagCode
  | HwWriteTIMEOUT u32
  | HwWriteCTRL u32
  | HwWriteKICK u32
  | EnterSafeStateWatchdogTimeout

definition ms_to_ticks :: "wdt_hw \<Rightarrow> u32 \<Rightarrow> u32" where
  "ms_to_ticks hw ms = (ms * WDT_CLOCK_HZ hw) div 1000"

text \<open>The constructor: the member initialisers, then the range check of the body. A
  constructor returns nothing but the object; the diagnostic goes to the trace.\<close>

definition Watchdog_ctor :: "u32 \<Rightarrow> wd_event list \<Rightarrow> Watchdog \<times> wd_event list" where
  "Watchdog_ctor timeout_ms tr =
     (let w = \<lparr>m_timeout_ms = timeout_ms, m_started = False, m_last_kick_time = 0,
               m_kick_count = 0, m_late_kick_count = 0\<rparr>
      in if timeout_ms < 10 \<or> timeout_ms > 1000
         then (w\<lparr>m_timeout_ms := WDT_DEFAULT_TIMEOUT_MS\<rparr>,
               tr @ [DiagError WDT_INVALID_TIMEOUT [timeout_ms]])
         else (w, tr))"

text \<open>\<^verbatim>\<open>start\<close> and \<^verbatim>\<open>kick\<close>; \<open>now\<close> is what \<^verbatim>\<open>get_system_time_ms()\<close> returns in the call.
  Each returns its \<^verbatim>\<open>bool\<close>, the object and the trace.\<close>

definition start ::
  "wdt_hw \<Rightarrow> u32 \<Rightarrow> Watchdog \<times> wd_event list \<Rightarrow> bool \<times> Watchdog \<times> wd_event list" where
  "start hw now st =
     (case st of (w, tr) \<Rightarrow>
        if m_started w then (False, w, tr @ [DiagWarn WDT_ALREADY_STARTED []])
        else (True,
              w\<lparr>m_started := True, m_last_kick_time := now\<rparr>,
              tr @ [HwWriteTIMEOUT (ms_to_ticks hw (m_timeout_ms w)),
                    HwWriteCTRL (WDT_CTRL_ENABLE hw OR WDT_CTRL_RESET_ON_TIMEOUT hw),
                    DiagInfo WDT_STARTED [m_timeout_ms w]]))"

definition kick ::
  "wdt_hw \<Rightarrow> u32 \<Rightarrow> Watchdog \<times> wd_event list \<Rightarrow> bool \<times> Watchdog \<times> wd_event list" where
  "kick hw now st =
     (case st of (w, tr) \<Rightarrow>
        if \<not> m_started w then (False, w, tr)
        else
          (let elapsed = now - m_last_kick_time w;
               expected_interval = m_timeout_ms w div 2;
               tolerance = (expected_interval * WDT_TIMING_TOLERANCE_PERCENT) div 100;
               late = (elapsed > expected_interval + tolerance);
               w1 = (if late then w\<lparr>m_late_kick_count := m_late_kick_count w + 1\<rparr> else w);
               tr1 = (if late then tr @ [DiagWarn WDT_LATE_KICK [elapsed, expected_interval]]
                      else tr)
           in (\<not> late,
               w1\<lparr>m_last_kick_time := now, m_kick_count := m_kick_count w1 + 1\<rparr>,
               tr1 @ [HwWriteKICK (WDT_KICK_KEY hw)])))"

text \<open>\<^verbatim>\<open>WDT_IRQHandler\<close>, the hardware-timeout path.\<close>

definition WDT_IRQHandler :: "wd_event list \<Rightarrow> wd_event list" where
  "WDT_IRQHandler tr = tr @ [DiagEmergency WDT_TIMEOUT, EnterSafeStateWatchdogTimeout]"

text \<open>Sequences of calls on one object, each with the time it reads.\<close>

datatype wd_call = Start u32 | Kick u32

fun wd_step :: "wdt_hw \<Rightarrow> wd_call \<Rightarrow> Watchdog \<times> wd_event list \<Rightarrow> Watchdog \<times> wd_event list" where
  "wd_step hw (Start now) st = snd (start hw now st)"
| "wd_step hw (Kick now) st = snd (kick hw now st)"

fun wd_run :: "wdt_hw \<Rightarrow> wd_call list \<Rightarrow> Watchdog \<times> wd_event list \<Rightarrow> Watchdog \<times> wd_event list" where
  "wd_run hw [] st = st"
| "wd_run hw (c # cs) st = wd_run hw cs (wd_step hw c st)"

text \<open>The range the constructor enforces, and the calls that are kicks.\<close>

definition timeout_in_range :: "Watchdog \<Rightarrow> bool" where
  "timeout_in_range w = (10 \<le> m_timeout_ms w \<and> m_timeout_ms w \<le> 1000)"

fun is_kick :: "wd_call \<Rightarrow> bool" where
  "is_kick (Kick now) = True"
| "is_kick (Start now) = False"

section \<open>Properties of the classifier and the handler\<close>

lemmas cfsr_bit_defs =
  IACCVIOL_def DACCVIOL_def IBUSERR_def PRECISERR_def IMPRECISERR_def
  UNDEFINSTR_def INVSTATE_def INVPC_def DIVBYZERO_def

lemmas group_defs = mem_access_violation_def bus_error_def usage_fatal_def bit_set_def

lemma and_sub_nonzero: "x AND a \<noteq> 0 \<Longrightarrow> a AND m = a \<Longrightarrow> x AND m \<noteq> (0::u32)"
proof
  assume a: "x AND a \<noteq> 0" and m: "a AND m = a" and z: "x AND m = 0"
  have "x AND a = x AND (m AND a)" using m by (simp add: and.commute)
  also have "\<dots> = (x AND m) AND a" by (simp add: and.assoc)
  also have "\<dots> = 0" using z by simp
  finally show False using a by simp
qed

lemma and_or_zero: "x AND (a OR b) = 0 \<longleftrightarrow> x AND a = 0 \<and> x AND b = (0::u32)"
  by (simp add: bit.conj_disj_distrib or_eq_0_iff)

lemma mmfsr_guard:
  "v AND push_bit 0 1 \<noteq> 0 \<Longrightarrow> v AND 0xFF \<noteq> (0::u32)"
  "v AND push_bit 1 1 \<noteq> 0 \<Longrightarrow> v AND 0xFF \<noteq> (0::u32)"
  using and_sub_nonzero[of v "push_bit 0 1" "0xFF"] and_sub_nonzero[of v "push_bit 1 1" "0xFF"]
  by simp_all

lemma bfsr_guard:
  "v AND push_bit 8 1 \<noteq> 0 \<Longrightarrow> v AND 0xFF00 \<noteq> (0::u32)"
  "v AND push_bit 9 1 \<noteq> 0 \<Longrightarrow> v AND 0xFF00 \<noteq> (0::u32)"
  "v AND push_bit 10 1 \<noteq> 0 \<Longrightarrow> v AND 0xFF00 \<noteq> (0::u32)"
  using and_sub_nonzero[of v "push_bit 8 1" "0xFF00"] and_sub_nonzero[of v "push_bit 9 1" "0xFF00"]
     and_sub_nonzero[of v "push_bit 10 1" "0xFF00"]
  by simp_all

lemma ufsr_guard:
  "v AND push_bit 16 1 \<noteq> 0 \<Longrightarrow> v AND 0xFFFF0000 \<noteq> (0::u32)"
  "v AND push_bit 17 1 \<noteq> 0 \<Longrightarrow> v AND 0xFFFF0000 \<noteq> (0::u32)"
  "v AND push_bit 18 1 \<noteq> 0 \<Longrightarrow> v AND 0xFFFF0000 \<noteq> (0::u32)"
  "v AND push_bit 24 1 \<noteq> 0 \<Longrightarrow> v AND 0xFFFF0000 \<noteq> (0::u32)"
  using and_sub_nonzero[of v "push_bit 16 1" "0xFFFF0000"] and_sub_nonzero[of v "push_bit 17 1" "0xFFFF0000"]
     and_sub_nonzero[of v "push_bit 18 1" "0xFFFF0000"] and_sub_nonzero[of v "push_bit 24 1" "0xFFFF0000"]
  by simp_all

lemma check_mmfsr_eq:
  "check_mmfsr v = (if mem_access_violation v then Some FAULT_CLASS_FATAL else None)"
  using mmfsr_guard[of v]
  by (auto simp add: check_mmfsr_def mem_access_violation_def bit_set_def IACCVIOL_def DACCVIOL_def)

lemma check_bfsr_eq:
  "check_bfsr v =
     (if bit_set v IBUSERR then Some FAULT_CLASS_FATAL
      else if bit_set v PRECISERR \<or> bit_set v IMPRECISERR then Some FAULT_CLASS_DEGRADED
      else None)"
  using bfsr_guard[of v]
  by (auto simp add: check_bfsr_def bit_set_def IBUSERR_def PRECISERR_def IMPRECISERR_def)

lemma check_ufsr_eq:
  "check_ufsr v =
     (if usage_fatal v then Some FAULT_CLASS_FATAL
      else if bit_set v DIVBYZERO then Some FAULT_CLASS_RECOVERABLE
      else None)"
  using ufsr_guard[of v]
  by (auto simp add: check_ufsr_def usage_fatal_def bit_set_def UNDEFINSTR_def INVSTATE_def INVPC_def DIVBYZERO_def)

lemma analyze_cfsr_chain:
  "analyze_cfsr v =
     (if mem_access_violation v then FAULT_CLASS_FATAL
      else if bit_set v IBUSERR then FAULT_CLASS_FATAL
      else if bit_set v PRECISERR \<or> bit_set v IMPRECISERR then FAULT_CLASS_DEGRADED
      else if usage_fatal v then FAULT_CLASS_FATAL
      else if bit_set v DIVBYZERO then FAULT_CLASS_RECOVERABLE
      else FAULT_CLASS_FATAL)"
  by (simp add: analyze_cfsr_def check_mmfsr_eq check_bfsr_eq check_ufsr_eq)

lemma no_known_bit:
  "v AND known_fault_bits = 0 \<longleftrightarrow>
     \<not> mem_access_violation v \<and> \<not> bus_error v \<and> \<not> usage_fatal v \<and> \<not> bit_set v DIVBYZERO"
  by (auto simp add: known_fault_bits_def and_or_zero bit_set_def mem_access_violation_def
      bus_error_def usage_fatal_def)

lemma escalate_safe_state:
  "cls \<noteq> fault_class_value FAULT_CLASS_RECOVERABLE \<Longrightarrow>
   cls \<noteq> fault_class_value FAULT_CLASS_DEGRADED \<Longrightarrow>
   escalate cls sf s =
     (sf, s\<lparr>events := events s @ [EnterSafeState SAFE_STATE_CPU_FAULT, NvicSystemReset]\<rparr>)"
  by (simp add: escalate_def)

text \<open>
  Claim C1. When the fault-status word has none of the nine bits the classifier knows,
  \<^verbatim>\<open>analyze_cfsr\<close> returns Fatal, and the handler, after storing the record and writing
  the status registers back, calls \<^verbatim>\<open>enter_safe_state\<close> and then \<^verbatim>\<open>NVIC_SystemReset\<close>:
  the stack frame is returned untouched (no resume) and degraded mode is not entered.
  The \<^verbatim>\<open>switch\<close> sends the Fatal class and every value that is neither Recoverable nor
  Degraded (its \<^verbatim>\<open>default\<close>) to the safe state.
\<close>

theorem unknown_cause_fatal_safe_state:
  assumes "CFSR env AND known_fault_bits = 0"
  shows "analyze_cfsr (CFSR env) = FAULT_CLASS_FATAL \<and>
    fault_handler_common crc32_calculate env stack_frame fault_type s =
      (stack_frame,
       (store_fault_record crc32_calculate (capture_record env stack_frame) s)
         \<lparr>events :=
            events (store_fault_record crc32_calculate (capture_record env stack_frame) s) @
            [ScbWriteCFSR (CFSR env), ScbWriteHFSR (HFSR env),
             EnterSafeState SAFE_STATE_CPU_FAULT, NvicSystemReset]\<rparr>) \<and>
    (\<forall>cls. cls \<noteq> fault_class_value FAULT_CLASS_RECOVERABLE \<and>
           cls \<noteq> fault_class_value FAULT_CLASS_DEGRADED \<longrightarrow>
       escalate cls stack_frame s =
         (stack_frame,
          s\<lparr>events := events s @ [EnterSafeState SAFE_STATE_CPU_FAULT, NvicSystemReset]\<rparr>))"
proof -
  have fatal: "analyze_cfsr (CFSR env) = FAULT_CLASS_FATAL"
    using assms by (simp add: no_known_bit analyze_cfsr_chain bus_error_def)
  have cf: "cfsr (capture_record env stack_frame) = CFSR env"
    and hf: "hfsr (capture_record env stack_frame) = HFSR env"
    by (simp_all add: capture_record_def)
  have "fault_handler_common crc32_calculate env stack_frame fault_type s =
      (stack_frame,
       (store_fault_record crc32_calculate (capture_record env stack_frame) s)
         \<lparr>events :=
            events (store_fault_record crc32_calculate (capture_record env stack_frame) s) @
            [ScbWriteCFSR (CFSR env), ScbWriteHFSR (HFSR env),
             EnterSafeState SAFE_STATE_CPU_FAULT, NvicSystemReset]\<rparr>)"
    unfolding fault_handler_common_def Let_def cf hf fatal
    by (simp add: escalate_def)
  with fatal show ?thesis
    by (simp add: escalate_safe_state)
qed

text \<open>The status word \<open>0x8080\<close> (only bits 7 and 15, which the classifier does not test),
  with a checksum function that is constantly 0 and an empty log.\<close>

theorem unknown_cause_fatal_safe_state_witness:
  "(0x8080 :: u32) AND known_fault_bits = 0 \<and>
   analyze_cfsr 0x8080 = FAULT_CLASS_FATAL \<and>
   events (snd (fault_handler_common (\<lambda>bs. 0)
      \<lparr>CFSR = 0x8080, HFSR = 0x40000000, DFSR = 0, MMFAR = 0, BFAR = 0, AFSR = 0,
       system_tick = 7, uninit_crc = 0\<rparr>
      (\<lambda>n. 0) 0
      \<lparr>g_fault_log = (\<lambda>n. \<lparr>r0 = 0, r1 = 0, r2 = 0, r3 = 0, r12 = 0, lr = 0, pc = 0, psr = 0,
           cfsr = 0, hfsr = 0, dfsr = 0, mmfar = 0, bfar = 0, afsr = 0, timestamp = 0, crc = 0\<rparr>),
        g_fault_count = 0, events = []\<rparr>)) =
     [LogStore 0 \<lparr>r0 = 0, r1 = 0, r2 = 0, r3 = 0, r12 = 0, lr = 0, pc = 0, psr = 0,
           cfsr = 0x8080, hfsr = 0x40000000, dfsr = 0, mmfar = 0, bfar = 0, afsr = 0, timestamp = 7, crc = 0\<rparr>,
      NvmFlushAsync, ScbWriteCFSR 0x8080, ScbWriteHFSR 0x40000000,
      EnterSafeState SAFE_STATE_CPU_FAULT, NvicSystemReset]"
proof -
  have h: "CFSR \<lparr>CFSR = 0x8080, HFSR = 0x40000000, DFSR = 0, MMFAR = 0, BFAR = 0, AFSR = 0,
       system_tick = 7, uninit_crc = 0\<rparr> AND known_fault_bits = 0"
    by (simp add: known_fault_bits_def cfsr_bit_defs)
  show ?thesis
    using h unknown_cause_fatal_safe_state [OF h, of "\<lambda>bs. 0" "\<lambda>n. 0" 0
      "\<lparr>g_fault_log = (\<lambda>n. \<lparr>r0 = 0, r1 = 0, r2 = 0, r3 = 0, r12 = 0, lr = 0, pc = 0, psr = 0,
           cfsr = 0, hfsr = 0, dfsr = 0, mmfar = 0, bfar = 0, afsr = 0, timestamp = 0, crc = 0\<rparr>),
        g_fault_count = 0, events = []\<rparr>"]
    by (simp add: store_fault_record_def capture_record_def FAULT_LOG_MAX_ENTRIES_def Let_def)
qed


text \<open>
  Claim C2, as the classifier has it. The classifier decides in the order memory-access
  violation, bus error, usage fault. Of the memory group it tests two bits, the
  instruction and the data access violation (\<^verbatim>\<open>IACCVIOL\<close>, \<^verbatim>\<open>DACCVIOL\<close>): if either is set
  the class is Fatal whatever else is set. With neither set, an instruction-bus error is
  Fatal; otherwise a precise or imprecise bus error is Degraded; with no bus-error bit, an
  undefined instruction, an invalid state or an invalid PC load is Fatal; and with none of
  those a division by zero is Recoverable.
\<close>

theorem analyze_cfsr_priority:
  "(mem_access_violation v \<longrightarrow> analyze_cfsr v = FAULT_CLASS_FATAL) \<and>
   (\<not> mem_access_violation v \<and> bit_set v IBUSERR \<longrightarrow> analyze_cfsr v = FAULT_CLASS_FATAL) \<and>
   (\<not> mem_access_violation v \<and> \<not> bit_set v IBUSERR \<and>
      (bit_set v PRECISERR \<or> bit_set v IMPRECISERR) \<longrightarrow>
      analyze_cfsr v = FAULT_CLASS_DEGRADED) \<and>
   (\<not> mem_access_violation v \<and> \<not> bus_error v \<and> usage_fatal v \<longrightarrow>
      analyze_cfsr v = FAULT_CLASS_FATAL) \<and>
   (\<not> mem_access_violation v \<and> \<not> bus_error v \<and> \<not> usage_fatal v \<and> bit_set v DIVBYZERO \<longrightarrow>
      analyze_cfsr v = FAULT_CLASS_RECOVERABLE)"
  by (simp add: analyze_cfsr_chain bus_error_def)

theorem analyze_cfsr_priority_witness:
  "mem_access_violation 0x01070703 \<and> analyze_cfsr 0x01070703 = FAULT_CLASS_FATAL \<and>
   \<not> mem_access_violation 0x01070700 \<and> bit_set 0x01070700 IBUSERR \<and>
     analyze_cfsr 0x01070700 = FAULT_CLASS_FATAL \<and>
   \<not> mem_access_violation 0x01070400 \<and> \<not> bit_set 0x01070400 IBUSERR \<and>
     bit_set 0x01070400 IMPRECISERR \<and> analyze_cfsr 0x01070400 = FAULT_CLASS_DEGRADED \<and>
   \<not> mem_access_violation 0x01040000 \<and> \<not> bus_error 0x01040000 \<and> usage_fatal 0x01040000 \<and>
     analyze_cfsr 0x01040000 = FAULT_CLASS_FATAL \<and>
   \<not> mem_access_violation 0x01000000 \<and> \<not> bus_error 0x01000000 \<and> \<not> usage_fatal 0x01000000 \<and>
     bit_set 0x01000000 DIVBYZERO \<and> analyze_cfsr 0x01000000 = FAULT_CLASS_RECOVERABLE"
  using analyze_cfsr_priority [of "0x01070703"] analyze_cfsr_priority [of "0x01070700"]
    analyze_cfsr_priority [of "0x01070400"] analyze_cfsr_priority [of "0x01040000"]
    analyze_cfsr_priority [of "0x01000000"]
  by (simp add: group_defs cfsr_bit_defs)

text \<open>
  Not every bit of the memory group makes the class Fatal. The group the code delimits is
  the low status byte, \<^verbatim>\<open>cfsr & 0xFF\<close>, and inside that guard only bits 0 and 1 are
  tested. The word \<open>0x210\<close> has bit 4 of the low byte set (it passes the guard) and the
  precise bus error: the memory block falls through and the class is Degraded. The word
  \<open>0x01000010\<close> has the same bit 4 and the division by zero: the class is Recoverable.
\<close>

theorem memory_group_bit_not_fatal:
  "(0x210 :: u32) AND 0xFF \<noteq> 0 \<and>
   check_mmfsr 0x210 = None \<and>
   analyze_cfsr 0x210 = FAULT_CLASS_DEGRADED \<and>
   (0x01000010 :: u32) AND 0xFF \<noteq> 0 \<and>
   check_mmfsr 0x01000010 = None \<and>
   analyze_cfsr 0x01000010 = FAULT_CLASS_RECOVERABLE"
  by (simp add: analyze_cfsr_def check_mmfsr_def check_bfsr_def check_ufsr_def)

lemma record_bytes_crc_update [simp]: "record_bytes (r\<lparr>crc := c\<rparr>) = record_bytes r"
  by (simp add: record_bytes_def)





section \<open>Properties of the fault log\<close>

lemma unat_succ_less: "i < count \<Longrightarrow> unat (i + 1) = Suc (unat i)" for i count :: u32
  by unat_arith

lemma read_index:
  fixes fc count i :: u32
  assumes "count \<le> fc" "i < count"
  shows "unat ((fc - count + i) mod FAULT_LOG_MAX_ENTRIES) = (unat fc - unat count + unat i) mod 16"
proof -
  have c: "unat count \<le> unat fc" and i: "unat i < unat count"
    using assms by (simp_all add: word_le_nat_alt word_less_nat_alt)
  have d: "unat (fc - count) = unat fc - unat count"
    using assms(1) by (rule unat_sub)
  have "unat fc < 2 ^ LENGTH(32)"
    by (rule unsigned_less)
  then have "unat (fc - count) + unat i < 2 ^ LENGTH(32)"
    using c i d by simp
  then have "unat (fc - count + i) = unat (fc - count) + unat i"
    by (rule unat_add_lem [THEN iffD1])
  then show ?thesis
    by (simp add: unat_mod FAULT_LOG_MAX_ENTRIES_def d)
qed

lemma get_log_loop_result:
  "count \<le> g_fault_count s \<Longrightarrow>
   get_log_loop crc32_calculate s count i buffer j =
     (if unat i \<le> j \<and> j < unat count then read_entry crc32_calculate s count buffer j
      else buffer j)"
proof (induction crc32_calculate s count i buffer rule: get_log_loop.induct)
  case (1 crc32_calculate s count i buffer)
  show ?case
  proof (cases "i < count")
    case False
    then have "\<not> (unat i \<le> j \<and> j < unat count)"
      by (simp add: word_less_nat_alt)
    with False show ?thesis
      by (subst get_log_loop.simps) auto
  next
    case True
    let ?index = "unat ((g_fault_count s - count + i) mod FAULT_LOG_MAX_ENTRIES)"
    let ?b = "if crc (g_fault_log s ?index) = crc32_calculate (record_bytes (g_fault_log s ?index))
              then buffer(unat i := g_fault_log s ?index)
              else buffer(unat i := (buffer (unat i))\<lparr>pc := 0xDEADBEEF, timestamp := 0\<rparr>)"
    have idx: "?index = read_slot s count (unat i)"
      using read_index [OF "1.prems" True] by (simp add: read_slot_def)
    have here: "?b (unat i) = read_entry crc32_calculate s count buffer (unat i)"
      by (simp add: idx read_entry_def record_intact_def)
    have other: "\<And>m. m \<noteq> unat i \<Longrightarrow> ?b m = buffer m"
      by simp
    have entry_other: "\<And>m. m \<noteq> unat i \<Longrightarrow>
        read_entry crc32_calculate s count ?b m = read_entry crc32_calculate s count buffer m"
      by (simp add: read_entry_def)
    have suc: "unat (i + 1) = Suc (unat i)" and lt: "unat i < unat count"
      using True by (simp_all add: unat_succ_less word_less_nat_alt)
    have step: "get_log_loop crc32_calculate s count i buffer =
        get_log_loop crc32_calculate s count (i + 1) ?b"
      using True by (subst get_log_loop.simps) (simp add: Let_def)
    have ih: "get_log_loop crc32_calculate s count (i + 1) ?b j =
        (if unat (i + 1) \<le> j \<and> j < unat count then read_entry crc32_calculate s count ?b j
         else ?b j)"
      using "1.IH" [OF True refl refl "1.prems"] .
    show ?thesis
    proof (cases "j = unat i")
      case True
      then show ?thesis unfolding step ih suc using here lt by simp
    next
      case False
      then show ?thesis unfolding step ih suc
        using other [OF False] entry_other [OF False] by auto
    qed
  qed
qed

lemma fault_get_log_count:
  "snd (fault_get_log crc32_calculate s buffer max_count) =
     (if g_fault_count s < max_count then g_fault_count s else max_count)"
  by (simp add: fault_get_log_def Let_def)

lemma fault_get_log_entries:
  "fst (fault_get_log crc32_calculate s buffer max_count) j =
     (if j < unat (snd (fault_get_log crc32_calculate s buffer max_count))
      then read_entry crc32_calculate s (snd (fault_get_log crc32_calculate s buffer max_count)) buffer j
      else buffer j)"
proof -
  let ?count = "if g_fault_count s < max_count then g_fault_count s else max_count"
  have le: "?count \<le> g_fault_count s" by auto
  show ?thesis
    by (simp only: fault_get_log_def Let_def fst_conv snd_conv get_log_loop_result [OF le]) simp
qed

text \<open>
  Claim C5, as the code has it. \<^verbatim>\<open>fault_get_log\<close> returns the smaller of the append counter
  and \<^verbatim>\<open>max_count\<close>, and fills exactly that many buffer entries, one per position. An
  entry whose slot passes the integrity check is the slot's record; an entry whose slot
  fails it is not the slot's record: it is the caller's buffer entry with \<^verbatim>\<open>pc\<close> set to
  \<open>0xDEADBEEF\<close> and \<^verbatim>\<open>timestamp\<close> set to 0, its other fourteen fields as the caller's buffer
  held them. No position is skipped, and entries beyond the count are untouched.
\<close>

theorem read_marks_corrupt_entries:
  "snd (fault_get_log crc32_calculate s buffer max_count) =
     (if g_fault_count s < max_count then g_fault_count s else max_count) \<and>
   (\<forall>j. fst (fault_get_log crc32_calculate s buffer max_count) j =
      (if j < unat (snd (fault_get_log crc32_calculate s buffer max_count)) then
         (if record_intact crc32_calculate
               (g_fault_log s (read_slot s (snd (fault_get_log crc32_calculate s buffer max_count)) j))
          then g_fault_log s (read_slot s (snd (fault_get_log crc32_calculate s buffer max_count)) j)
          else (buffer j)\<lparr>pc := 0xDEADBEEF, timestamp := 0\<rparr>)
       else buffer j))"
  using fault_get_log_entries [of crc32_calculate s buffer max_count]
  by (simp add: fault_get_log_count read_entry_def)

lemma marker_on_sentinel:
  "pc v = 0xDEADBEEF \<Longrightarrow> timestamp v = 0 \<Longrightarrow> v\<lparr>pc := 0xDEADBEEF, timestamp := 0\<rparr> = v"
  by simp

text \<open>
  The mark is made of two ordinary field values, so it is not distinct from every valid
  record, and the unassigned fields are whatever the buffer held. Let the log's one record
  have a wrong checksum, and let the caller's buffer still hold a valid record whose
  program counter is \<open>0xDEADBEEF\<close> and whose timestamp is 0 (say from an earlier read).
  Then, for every checksum function, the read returns exactly what it returns when the log
  holds that valid record.
\<close>

lemma any_checksum_conflates_corrupt_entry:
  "record_intact crc32_calculate
       (zero_record\<lparr>pc := 0xDEADBEEF, crc := crc32_calculate (record_bytes (zero_record\<lparr>pc := 0xDEADBEEF\<rparr>))\<rparr>) \<and>
     \<not> record_intact crc32_calculate
       (zero_record\<lparr>pc := 0xDEADBEEF, crc := crc32_calculate (record_bytes (zero_record\<lparr>pc := 0xDEADBEEF\<rparr>)) + 1\<rparr>) \<and>
     fault_get_log crc32_calculate
       \<lparr>g_fault_log = (\<lambda>n. zero_record\<lparr>pc := 0xDEADBEEF,
            crc := crc32_calculate (record_bytes (zero_record\<lparr>pc := 0xDEADBEEF\<rparr>)) + 1\<rparr>),
        g_fault_count = 1, events = []\<rparr>
       (\<lambda>n. zero_record\<lparr>pc := 0xDEADBEEF,
            crc := crc32_calculate (record_bytes (zero_record\<lparr>pc := 0xDEADBEEF\<rparr>))\<rparr>) 1 =
     fault_get_log crc32_calculate
       \<lparr>g_fault_log = (\<lambda>n. zero_record\<lparr>pc := 0xDEADBEEF,
            crc := crc32_calculate (record_bytes (zero_record\<lparr>pc := 0xDEADBEEF\<rparr>))\<rparr>),
        g_fault_count = 1, events = []\<rparr>
       (\<lambda>n. zero_record\<lparr>pc := 0xDEADBEEF,
            crc := crc32_calculate (record_bytes (zero_record\<lparr>pc := 0xDEADBEEF\<rparr>))\<rparr>) 1"
proof -
  let ?c = "crc32_calculate (record_bytes (zero_record\<lparr>pc := 0xDEADBEEF\<rparr>))"
  let ?v = "zero_record\<lparr>pc := 0xDEADBEEF, crc := ?c\<rparr>"
  let ?bad = "zero_record\<lparr>pc := 0xDEADBEEF, crc := ?c + 1\<rparr>"
  let ?sbad = "\<lparr>g_fault_log = (\<lambda>n. ?bad), g_fault_count = 1, events = []\<rparr>"
  let ?sv = "\<lparr>g_fault_log = (\<lambda>n. ?v), g_fault_count = 1, events = []\<rparr>"
  have ne: "?c + 1 \<noteq> ?c" by simp
  have iv: "record_intact crc32_calculate ?v"
    by (simp add: record_intact_def)
  have ib: "\<not> record_intact crc32_calculate ?bad"
    using ne by (simp add: record_intact_def)
  have mark: "?v\<lparr>pc := 0xDEADBEEF, timestamp := 0\<rparr> = ?v"
    by (rule marker_on_sentinel) (simp_all add: zero_record_def)
  have cb: "snd (fault_get_log crc32_calculate ?sbad (\<lambda>n. ?v) 1) = 1"
    and cv: "snd (fault_get_log crc32_calculate ?sv (\<lambda>n. ?v) 1) = 1"
    by (simp_all add: fault_get_log_count)
  have eb: "fst (fault_get_log crc32_calculate ?sbad (\<lambda>n. ?v) 1) = (\<lambda>n. ?v)"
  proof
    fix j
    show "fst (fault_get_log crc32_calculate ?sbad (\<lambda>n. ?v) 1) j = ?v"
      unfolding fault_get_log_entries cb read_entry_def
      using ib mark by simp
  qed
  have ev: "fst (fault_get_log crc32_calculate ?sv (\<lambda>n. ?v) 1) = (\<lambda>n. ?v)"
  proof
    fix j
    show "fst (fault_get_log crc32_calculate ?sv (\<lambda>n. ?v) 1) j = ?v"
      unfolding fault_get_log_entries cv read_entry_def
      using iv by simp
  qed
  have "fault_get_log crc32_calculate ?sbad (\<lambda>n. ?v) 1 = fault_get_log crc32_calculate ?sv (\<lambda>n. ?v) 1"
    by (rule prod_eqI) (simp_all only: eb ev cb cv)
  with iv ib show ?thesis
    by (intro conjI)
qed

text \<open>The same with the byte sum as the checksum: the valid record has checksum 824, the
  log's record carries 825, and the two reads are equal.\<close>

theorem corrupt_entry_conflated:
  "record_intact sample_checksum (zero_record\<lparr>pc := 0xDEADBEEF, crc := 824\<rparr>) \<and>
   \<not> record_intact sample_checksum (zero_record\<lparr>pc := 0xDEADBEEF, crc := 825\<rparr>) \<and>
   fault_get_log sample_checksum
     \<lparr>g_fault_log = (\<lambda>n. zero_record\<lparr>pc := 0xDEADBEEF, crc := 825\<rparr>),
      g_fault_count = 1, events = []\<rparr>
     (\<lambda>n. zero_record\<lparr>pc := 0xDEADBEEF, crc := 824\<rparr>) 1 =
   fault_get_log sample_checksum
     \<lparr>g_fault_log = (\<lambda>n. zero_record\<lparr>pc := 0xDEADBEEF, crc := 824\<rparr>),
      g_fault_count = 1, events = []\<rparr>
     (\<lambda>n. zero_record\<lparr>pc := 0xDEADBEEF, crc := 824\<rparr>) 1"
proof -
  have sum: "sample_checksum (record_bytes (zero_record\<lparr>pc := 0xDEADBEEF\<rparr>)) = 824"
    by (simp add: sample_checksum_def record_bytes_def le_bytes_def zero_record_def)
  show ?thesis
    using any_checksum_conflates_corrupt_entry [of sample_checksum] unfolding sum by simp
qed

lemma stored_intact: "record_intact crc32_calculate (stored crc32_calculate r)"
  by (simp add: stored_def record_intact_def)

lemma store_fault_record_log:
  "g_fault_log (store_fault_record crc32_calculate r s) =
     (g_fault_log s)(unat (g_fault_count s) mod 16 := stored crc32_calculate r)"
  by (simp add: store_fault_record_def Let_def FAULT_LOG_MAX_ENTRIES_def unat_mod stored_def)

lemma store_fault_record_count:
  "g_fault_count (store_fault_record crc32_calculate r s) = g_fault_count s + 1"
  by (simp add: store_fault_record_def Let_def)

lemma unat_inc_mod16: "unat (c + 1) mod 16 = (unat c + 1) mod 16" for c :: u32
proof -
  have "unat (c + 1) = (unat c + unat (1::u32)) mod 2 ^ LENGTH(32)"
    by (rule unat_word_ariths(1))
  then have "unat (c + 1) mod 16 = ((unat c + 1) mod 2 ^ 32) mod 16"
    by simp
  also have "\<dots> = (unat c + 1) mod 16"
    by (rule mod_mod_cancel) simp
  finally show ?thesis .
qed

lemma store_all_count:
  "g_fault_count (store_all crc32_calculate rs s) = g_fault_count s + of_nat (length rs)"
  by (induction rs arbitrary: s) (simp_all add: store_fault_record_count add.assoc)

lemma store_all_frame:
  "(\<And>i. i < length rs \<Longrightarrow> (unat (g_fault_count s) + i) mod 16 \<noteq> j) \<Longrightarrow>
   g_fault_log (store_all crc32_calculate rs s) j = g_fault_log s j"
proof (induction rs arbitrary: s)
  case Nil
  then show ?case by simp
next
  case (Cons r rs)
  have here: "unat (g_fault_count s) mod 16 \<noteq> j"
    using Cons.prems [of 0] by simp
  have later: "(unat (g_fault_count (store_fault_record crc32_calculate r s)) + i) mod 16 \<noteq> j"
    if "i < length rs" for i
  proof -
    have "(unat (g_fault_count s + 1) + i) mod 16 = (unat (g_fault_count s + 1) mod 16 + i) mod 16"
      by (simp add: mod_add_left_eq)
    also have "\<dots> = ((unat (g_fault_count s) + 1) mod 16 + i) mod 16"
      by (simp only: unat_inc_mod16)
    also have "\<dots> = (unat (g_fault_count s) + Suc i) mod 16"
      by (simp add: mod_add_left_eq)
    finally show ?thesis
      using Cons.prems [of "Suc i"] that by (simp add: store_fault_record_count)
  qed
  have "g_fault_log (store_all crc32_calculate rs (store_fault_record crc32_calculate r s)) j =
      g_fault_log (store_fault_record crc32_calculate r s) j"
    using later by (rule Cons.IH)
  then show ?case
    using here by (simp add: store_fault_record_log)
qed

lemma mod16_distinct:
  assumes "0 < d" "d < 16"
  shows "(a + d) mod 16 \<noteq> a mod (16::nat)"
proof
  assume "(a + d) mod 16 = a mod 16"
  then have "16 dvd (a + d) - a"
    by (simp add: mod_eq_dvd_iff_nat)
  then have "16 dvd d" by simp
  then show False
    using assms by (auto dest: dvd_imp_le)
qed

lemma store_all_slot:
  "k < length rs \<Longrightarrow> length rs - k \<le> 16 \<Longrightarrow>
   g_fault_log (store_all crc32_calculate rs s) ((unat (g_fault_count s) + k) mod 16) =
     stored crc32_calculate (rs ! k)"
proof (induction rs arbitrary: s k)
  case Nil
  then show ?case by simp
next
  case (Cons r rs)
  let ?s1 = "store_fault_record crc32_calculate r s"
  have shift: "(unat (g_fault_count ?s1) + i) mod 16 = (unat (g_fault_count s) + Suc i) mod 16" for i
  proof -
    have "(unat (g_fault_count s + 1) + i) mod 16 = (unat (g_fault_count s + 1) mod 16 + i) mod 16"
      by (simp add: mod_add_left_eq)
    also have "\<dots> = ((unat (g_fault_count s) + 1) mod 16 + i) mod 16"
      by (simp only: unat_inc_mod16)
    also have "\<dots> = (unat (g_fault_count s) + Suc i) mod 16"
      by (simp add: mod_add_left_eq)
    finally show ?thesis by (simp add: store_fault_record_count)
  qed
  show ?case
  proof (cases k)
    case 0
    have len: "length rs < 16" using Cons.prems 0 by simp
    have "g_fault_log (store_all crc32_calculate rs ?s1) (unat (g_fault_count s) mod 16) =
        g_fault_log ?s1 (unat (g_fault_count s) mod 16)"
    proof (rule store_all_frame)
      fix i assume "i < length rs"
      then have "0 < Suc i" "Suc i < 16" using len by simp_all
      then have "(unat (g_fault_count s) + Suc i) mod 16 \<noteq> unat (g_fault_count s) mod 16"
        by (rule mod16_distinct)
      then show "(unat (g_fault_count ?s1) + i) mod 16 \<noteq> unat (g_fault_count s) mod 16"
        unfolding shift .
    qed
    then show ?thesis
      using 0 by (simp add: store_fault_record_log)
  next
    case (Suc k')
    have "g_fault_log (store_all crc32_calculate rs ?s1) ((unat (g_fault_count ?s1) + k') mod 16) =
        stored crc32_calculate (rs ! k')"
      using Cons.prems Suc by (intro Cons.IH) simp_all
    then show ?thesis
      using Suc by (simp add: shift)
  qed
qed


lemma store_all_count_unat:
  assumes "unat (g_fault_count s) + length rs < 2 ^ 32"
  shows "unat (g_fault_count (store_all crc32_calculate rs s)) = unat (g_fault_count s) + length rs"
proof -
  have n: "unat (of_nat (length rs) :: u32) = length rs"
    using assms by (simp add: unat_of_nat)
  have "unat (g_fault_count s) + unat (of_nat (length rs) :: u32) < 2 ^ LENGTH(32)"
    using assms by (simp add: n)
  then have "unat (g_fault_count s + of_nat (length rs)) =
      unat (g_fault_count s) + unat (of_nat (length rs) :: u32)"
    by (rule unat_add_lem [THEN iffD1])
  then show ?thesis
    by (simp add: store_all_count n)
qed

lemma read_back_core:
  assumes no_wrap: "unat (g_fault_count s) + length rs < 2 ^ 32"
    and k: "k < length rs"
    and kept: "length rs - k \<le> 16"
    and asked: "length rs - k \<le> unat max_count"
  shows "length rs - k \<le> unat (snd (fault_get_log crc32_calculate (store_all crc32_calculate rs s) buffer max_count))"
    and "fst (fault_get_log crc32_calculate (store_all crc32_calculate rs s) buffer max_count)
           (unat (snd (fault_get_log crc32_calculate (store_all crc32_calculate rs s) buffer max_count))
              - (length rs - k)) =
         stored crc32_calculate (rs ! k)"
proof -
  let ?s = "store_all crc32_calculate rs s"
  let ?n = "snd (fault_get_log crc32_calculate ?s buffer max_count)"
  let ?pos = "unat ?n - (length rs - k)"
  have fc: "unat (g_fault_count ?s) = unat (g_fault_count s) + length rs"
    using no_wrap by (rule store_all_count_unat)
  have n: "unat ?n = min (unat (g_fault_count ?s)) (unat max_count)"
    by (simp add: fault_get_log_count word_less_nat_alt)
  show enough: "length rs - k \<le> unat ?n"
    using asked by (simp add: n fc)
  have pos: "?pos < unat ?n"
    using k enough by simp
  have "read_slot ?s ?n ?pos = (unat (g_fault_count s) + k) mod 16"
  proof -
    have "unat ?n \<le> unat (g_fault_count ?s)"
      by (simp add: n)
    then have "unat (g_fault_count ?s) - unat ?n + ?pos = unat (g_fault_count s) + k"
      using k enough fc by arith
    then show ?thesis by (simp only: read_slot_def)
  qed
  then have slot: "g_fault_log ?s (read_slot ?s ?n ?pos) = stored crc32_calculate (rs ! k)"
    using k kept by (simp only: store_all_slot)
  have "fst (fault_get_log crc32_calculate ?s buffer max_count) ?pos =
      read_entry crc32_calculate ?s ?n buffer ?pos"
    using pos by (simp only: fault_get_log_entries if_True)
  also have "\<dots> = stored crc32_calculate (rs ! k)"
    by (simp only: read_entry_def slot stored_intact if_True)
  finally show "fst (fault_get_log crc32_calculate ?s buffer max_count) ?pos =
      stored crc32_calculate (rs ! k)" .
qed

text \<open>
  Claim C9, with the bounds it needs. Append the records \<open>rs\<close> to any log state, the
  32-bit append counter not wrapping. Then for the \<open>k\<close>-th of them, if at most 16 records
  were appended from it on (it is not overwritten) and \<^verbatim>\<open>max_count\<close> reaches back to it, a
  read returns it, at that distance from the end of the returned window, with every field
  as appended except \<^verbatim>\<open>crc\<close>, which is the checksum computed at append time; the returned
  record passes the integrity check, so it is not a corruption mark.
\<close>

theorem appended_record_read_back:
  assumes "unat (g_fault_count s) + length rs < 2 ^ 32"
    and "k < length rs"
    and "length rs - k \<le> 16"
    and "length rs - k \<le> unat max_count"
  shows "length rs - k \<le> unat (snd (fault_get_log crc32_calculate (store_all crc32_calculate rs s) buffer max_count)) \<and>
     fst (fault_get_log crc32_calculate (store_all crc32_calculate rs s) buffer max_count)
           (unat (snd (fault_get_log crc32_calculate (store_all crc32_calculate rs s) buffer max_count))
              - (length rs - k)) =
       (rs ! k)\<lparr>crc := crc32_calculate (record_bytes (rs ! k))\<rparr> \<and>
     record_intact crc32_calculate ((rs ! k)\<lparr>crc := crc32_calculate (record_bytes (rs ! k))\<rparr>)"
  using read_back_core [OF assms, of crc32_calculate buffer] stored_intact [of crc32_calculate "rs ! k"]
  by (simp add: stored_def)

lemma fault_clear_log_count: "g_fault_count (fault_clear_log s) = 0"
  by (simp add: fault_clear_log_def)

text \<open>
  Without the bound on the counter the round trip fails: after \<open>2^32\<close> appends of a record
  to a cleared log \<^verbatim>\<open>g_fault_count\<close> is 0 again. The record appended last is in slot 15,
  intact, and a read of 16 returns no record and leaves the buffer as it was, for every
  record and every checksum function.
\<close>

lemma any_checksum_wrap_empties_read:
  "g_fault_log (store_all crc32_calculate (replicate (2 ^ 32) r)
      (fault_clear_log \<lparr>g_fault_log = (\<lambda>n. zero_record), g_fault_count = 0, events = []\<rparr>)) 15 =
     r\<lparr>crc := crc32_calculate (record_bytes r)\<rparr> \<and>
   fault_get_log crc32_calculate
     (store_all crc32_calculate (replicate (2 ^ 32) r)
        (fault_clear_log \<lparr>g_fault_log = (\<lambda>n. zero_record), g_fault_count = 0, events = []\<rparr>))
     (\<lambda>n. zero_record) 16 = ((\<lambda>n. zero_record), 0)"
proof -
  let ?init = "fault_clear_log \<lparr>g_fault_log = (\<lambda>n. zero_record), g_fault_count = 0, events = []\<rparr>"
  let ?s = "store_all crc32_calculate (replicate (2 ^ 32) r) ?init"
  have "g_fault_log ?s ((unat (g_fault_count ?init) + (2 ^ 32 - 1)) mod 16) =
      stored crc32_calculate (replicate (2 ^ 32) r ! (2 ^ 32 - 1))"
    by (rule store_all_slot) simp_all
  then have last: "g_fault_log ?s 15 = r\<lparr>crc := crc32_calculate (record_bytes r)\<rparr>"
    by (simp add: fault_clear_log_count stored_def)
  have c: "g_fault_count ?s = 0"
    by (simp add: store_all_count fault_clear_log_count)
  have n: "snd (fault_get_log crc32_calculate ?s (\<lambda>n. zero_record) 16) = 0"
    unfolding fault_get_log_count c by simp
  have e: "fst (fault_get_log crc32_calculate ?s (\<lambda>n. zero_record) 16) = (\<lambda>n. zero_record)"
    unfolding fault_get_log_entries n by simp
  have "fault_get_log crc32_calculate ?s (\<lambda>n. zero_record) 16 = ((\<lambda>n. zero_record), 0)"
    by (rule prod_eqI) (simp_all only: e n fst_conv snd_conv)
  with last show ?thesis
    by (intro conjI)
qed

text \<open>The same with the byte sum as the checksum and records of timestamp 7.\<close>

theorem read_empty_after_counter_wrap:
  "g_fault_log (store_all sample_checksum (replicate (2 ^ 32) (zero_record\<lparr>timestamp := 7\<rparr>))
      (fault_clear_log \<lparr>g_fault_log = (\<lambda>n. zero_record), g_fault_count = 0, events = []\<rparr>)) 15 =
     zero_record\<lparr>timestamp := 7, crc := 7\<rparr> \<and>
   fault_get_log sample_checksum
     (store_all sample_checksum (replicate (2 ^ 32) (zero_record\<lparr>timestamp := 7\<rparr>))
        (fault_clear_log \<lparr>g_fault_log = (\<lambda>n. zero_record), g_fault_count = 0, events = []\<rparr>))
     (\<lambda>n. zero_record) 16 = ((\<lambda>n. zero_record), 0)"
proof -
  have sum: "sample_checksum (record_bytes (zero_record\<lparr>timestamp := 7\<rparr>)) = 7"
    by (simp add: sample_checksum_def record_bytes_def le_bytes_def zero_record_def)
  show ?thesis
    using any_checksum_wrap_empties_read [of sample_checksum "zero_record\<lparr>timestamp := 7\<rparr>"]
    unfolding sum by simp
qed

text \<open>
  Claim C4, within the bounds of the code. Take fewer than \<open>2^32\<close> appends to a cleared
  log and a read whose selected number of records, \<open>min max_count (length rs)\<close>, is at most
  the capacity of 16: so \<^verbatim>\<open>max_count\<close> is at most 16, or at most 16 records were appended
  (then \<^verbatim>\<open>max_count\<close> may be anything). The read returns that many records, which is the
  smaller of \<^verbatim>\<open>max_count\<close> and the number of records held: they are the most recent ones,
  oldest first, each as appended with its append-time checksum. In particular, after more
  than 16 appends a read of 16 returns the last 16 records in order. Only the reads with
  \<^verbatim>\<open>max_count\<close> above 16 after more than 16 appends are left out.
\<close>

lemma read_recent_window:
  assumes few: "length rs < 2 ^ 32" and cap: "min (unat max_count) (length rs) \<le> 16"
  shows "unat (snd (fault_get_log crc32_calculate (store_all crc32_calculate rs (fault_clear_log s)) buffer max_count)) =
           min (unat max_count) (length rs) \<and>
         map (fst (fault_get_log crc32_calculate (store_all crc32_calculate rs (fault_clear_log s)) buffer max_count))
             [0 ..< unat (snd (fault_get_log crc32_calculate (store_all crc32_calculate rs (fault_clear_log s)) buffer max_count))] =
           map (stored crc32_calculate)
             (drop (length rs - unat (snd (fault_get_log crc32_calculate (store_all crc32_calculate rs (fault_clear_log s)) buffer max_count))) rs)"
proof -
  let ?init = "fault_clear_log s"
  let ?s = "store_all crc32_calculate rs ?init"
  let ?out = "fst (fault_get_log crc32_calculate ?s buffer max_count)"
  let ?n = "unat (snd (fault_get_log crc32_calculate ?s buffer max_count))"
  have nw: "unat (g_fault_count ?init) + length rs < 2 ^ 32"
    using few by (simp add: fault_clear_log_count)
  have fc: "unat (g_fault_count ?s) = length rs"
    using store_all_count_unat [OF nw, of crc32_calculate] by (simp add: fault_clear_log_count)
  have n: "?n = min (unat max_count) (length rs)"
    by (simp add: fault_get_log_count word_less_nat_alt fc min_def)
  have "map ?out [0 ..< ?n] = map (stored crc32_calculate) (drop (length rs - ?n) rs)"
  proof (rule nth_equalityI)
    show "length (map ?out [0 ..< ?n]) = length (map (stored crc32_calculate) (drop (length rs - ?n) rs))"
      using n by simp
  next
    fix i assume "i < length (map ?out [0 ..< ?n])"
    then have i: "i < ?n" by simp
    let ?k = "length rs - ?n + i"
    have nle: "?n \<le> length rs" "?n \<le> unat max_count" using n by simp_all
    have k: "?k < length rs" using i nle by arith
    have d: "length rs - ?k = ?n - i" using i nle by arith
    have n16: "?n \<le> 16" using cap n by simp
    have kept: "length rs - ?k \<le> 16" using d n16 by arith
    have asked: "length rs - ?k \<le> unat max_count" using d nle by arith
    have "?out (?n - (length rs - ?k)) = stored crc32_calculate (rs ! ?k)"
      using nw k kept asked by (rule read_back_core(2))
    moreover have "?n - (length rs - ?k) = i" using i d by arith
    ultimately have "?out i = stored crc32_calculate (rs ! ?k)" by (simp only:)
    moreover have "map ?out [0 ..< ?n] ! i = ?out i"
      using i by simp
    moreover have "map (stored crc32_calculate) (drop (length rs - ?n) rs) ! i =
        stored crc32_calculate (rs ! ?k)"
      using i nle by simp
    ultimately show "map ?out [0 ..< ?n] ! i = map (stored crc32_calculate) (drop (length rs - ?n) rs) ! i"
      by (simp only:)
  qed
  with n show ?thesis by simp
qed

text \<open>
  Without the bound on the number of appends the window is too short: after \<open>2^32 + 3\<close>
  appends of a record to a cleared log the counter is 3. Slot 3 still holds the record
  appended 16 appends ago, intact, so 16 records are held; a read of 16 returns 3, for
  every record and every checksum function.
\<close>

lemma any_checksum_wrap_shortens_read:
  "g_fault_log (store_all crc32_calculate (replicate (2 ^ 32 + 3) r)
      (fault_clear_log \<lparr>g_fault_log = (\<lambda>n. zero_record), g_fault_count = 0, events = []\<rparr>)) 3 =
     r\<lparr>crc := crc32_calculate (record_bytes r)\<rparr> \<and>
   snd (fault_get_log crc32_calculate
     (store_all crc32_calculate (replicate (2 ^ 32 + 3) r)
        (fault_clear_log \<lparr>g_fault_log = (\<lambda>n. zero_record), g_fault_count = 0, events = []\<rparr>))
     (\<lambda>n. zero_record) 16) = 3"
proof -
  let ?init = "fault_clear_log \<lparr>g_fault_log = (\<lambda>n. zero_record), g_fault_count = 0, events = []\<rparr>"
  let ?s = "store_all crc32_calculate (replicate (2 ^ 32 + 3) r) ?init"
  have "g_fault_log ?s ((unat (g_fault_count ?init) + (2 ^ 32 - 13)) mod 16) =
      stored crc32_calculate (replicate (2 ^ 32 + 3) r ! (2 ^ 32 - 13))"
    by (rule store_all_slot) simp_all
  then have held: "g_fault_log ?s 3 = r\<lparr>crc := crc32_calculate (record_bytes r)\<rparr>"
    by (simp add: fault_clear_log_count stored_def)
  have c: "g_fault_count ?s = 3"
    by (simp add: store_all_count fault_clear_log_count)
  have n: "snd (fault_get_log crc32_calculate ?s (\<lambda>n. zero_record) 16) = 3"
    unfolding fault_get_log_count c by simp
  from held n show ?thesis
    by (intro conjI)
qed

text \<open>The same with the byte sum as the checksum and records of timestamp 7.\<close>

theorem read_short_after_counter_wrap:
  "g_fault_log (store_all sample_checksum (replicate (2 ^ 32 + 3) (zero_record\<lparr>timestamp := 7\<rparr>))
      (fault_clear_log \<lparr>g_fault_log = (\<lambda>n. zero_record), g_fault_count = 0, events = []\<rparr>)) 3 =
     zero_record\<lparr>timestamp := 7, crc := 7\<rparr> \<and>
   snd (fault_get_log sample_checksum
     (store_all sample_checksum (replicate (2 ^ 32 + 3) (zero_record\<lparr>timestamp := 7\<rparr>))
        (fault_clear_log \<lparr>g_fault_log = (\<lambda>n. zero_record), g_fault_count = 0, events = []\<rparr>))
     (\<lambda>n. zero_record) 16) = 3"
proof -
  have sum: "sample_checksum (record_bytes (zero_record\<lparr>timestamp := 7\<rparr>)) = 7"
    by (simp add: sample_checksum_def record_bytes_def le_bytes_def zero_record_def)
  show ?thesis
    using any_checksum_wrap_shortens_read [of sample_checksum "zero_record\<lparr>timestamp := 7\<rparr>"]
    unfolding sum by simp
qed

text \<open>
  A read that asks for more than the capacity. After 17 appends to a cleared log
  (timestamps 0 to 16) the log holds the 16 records with timestamps 1 to 16. A read with
  \<^verbatim>\<open>max_count = 17\<close> returns the count 17, not 16, and its first entry is the newest record
  (timestamp 16), which it returns again as its last entry: the count is not capped at
  \<^verbatim>\<open>FAULT_LOG_MAX_ENTRIES\<close>, so position 0 reads slot 0 a second time.
\<close>

theorem read_beyond_capacity:
  "snd (fault_get_log crc32_calculate
          (store_all crc32_calculate (map (\<lambda>i. zero_record\<lparr>timestamp := of_nat i\<rparr>) [0 ..< 17])
             (fault_clear_log s)) buffer 17) = 17 \<and>
   fst (fault_get_log crc32_calculate
          (store_all crc32_calculate (map (\<lambda>i. zero_record\<lparr>timestamp := of_nat i\<rparr>) [0 ..< 17])
             (fault_clear_log s)) buffer 17) 0 =
     zero_record\<lparr>timestamp := 16,
       crc := crc32_calculate (record_bytes (zero_record\<lparr>timestamp := 16\<rparr>))\<rparr> \<and>
   fst (fault_get_log crc32_calculate
          (store_all crc32_calculate (map (\<lambda>i. zero_record\<lparr>timestamp := of_nat i\<rparr>) [0 ..< 17])
             (fault_clear_log s)) buffer 17) 1 =
     zero_record\<lparr>timestamp := 1,
       crc := crc32_calculate (record_bytes (zero_record\<lparr>timestamp := 1\<rparr>))\<rparr> \<and>
   fst (fault_get_log crc32_calculate
          (store_all crc32_calculate (map (\<lambda>i. zero_record\<lparr>timestamp := of_nat i\<rparr>) [0 ..< 17])
             (fault_clear_log s)) buffer 17) 16 =
     zero_record\<lparr>timestamp := 16,
       crc := crc32_calculate (record_bytes (zero_record\<lparr>timestamp := 16\<rparr>))\<rparr>"
proof -
  let ?rs = "map (\<lambda>i. zero_record\<lparr>timestamp := of_nat i\<rparr>) [0 ..< 17]"
  let ?init = "fault_clear_log s"
  let ?s = "store_all crc32_calculate ?rs ?init"
  have len: "length ?rs = 17" by simp
  have c: "g_fault_count ?s = 17"
    by (simp only: store_all_count fault_clear_log_count len) simp
  have n: "snd (fault_get_log crc32_calculate ?s buffer 17) = 17"
    by (simp add: fault_get_log_count c)
  have slot0: "g_fault_log ?s ((unat (g_fault_count ?init) + 16) mod 16) = stored crc32_calculate (?rs ! 16)"
    by (rule store_all_slot) simp_all
  have slot1: "g_fault_log ?s ((unat (g_fault_count ?init) + 1) mod 16) = stored crc32_calculate (?rs ! 1)"
    by (rule store_all_slot) simp_all
  have r16: "?rs ! 16 = zero_record\<lparr>timestamp := 16\<rparr>"
    by (simp only: nth_map_upt) simp
  have r1: "?rs ! 1 = zero_record\<lparr>timestamp := 1\<rparr>"
    by (simp only: nth_map_upt) simp
  have s0: "g_fault_log ?s 0 = stored crc32_calculate (zero_record\<lparr>timestamp := 16\<rparr>)"
    using slot0 by (simp only: r16 fault_clear_log_count) simp
  have s1: "g_fault_log ?s 1 = stored crc32_calculate (zero_record\<lparr>timestamp := 1\<rparr>)"
    using slot1 by (simp only: r1 fault_clear_log_count) simp
  have rs: "read_slot ?s 17 0 = 0" "read_slot ?s 17 1 = 1" "read_slot ?s 17 16 = 0"
    by (simp_all add: read_slot_def c)
  have e0: "fst (fault_get_log crc32_calculate ?s buffer 17) 0 = stored crc32_calculate (zero_record\<lparr>timestamp := 16\<rparr>)"
    unfolding fault_get_log_entries n read_entry_def rs s0 by (simp add: stored_intact)
  have e1: "fst (fault_get_log crc32_calculate ?s buffer 17) 1 = stored crc32_calculate (zero_record\<lparr>timestamp := 1\<rparr>)"
    unfolding fault_get_log_entries n read_entry_def rs s1 by (simp add: stored_intact)
  have e16: "fst (fault_get_log crc32_calculate ?s buffer 17) 16 = stored crc32_calculate (zero_record\<lparr>timestamp := 16\<rparr>)"
    unfolding fault_get_log_entries n read_entry_def rs s0 by (simp add: stored_intact)
  show ?thesis
    unfolding n e0 e1 e16 by (simp add: stored_def)
qed

theorem appended_record_read_back_witness:
  "unat (g_fault_count (fault_clear_log \<lparr>g_fault_log = (\<lambda>n. zero_record), g_fault_count = 5, events = []\<rparr>))
     + length [zero_record\<lparr>timestamp := 1\<rparr>, zero_record\<lparr>timestamp := 2\<rparr>] < 2 ^ 32 \<and>
   (0::nat) < length [zero_record\<lparr>timestamp := 1\<rparr>, zero_record\<lparr>timestamp := 2\<rparr>] \<and>
   length [zero_record\<lparr>timestamp := 1\<rparr>, zero_record\<lparr>timestamp := 2\<rparr>] - 0 \<le> 16 \<and>
   length [zero_record\<lparr>timestamp := 1\<rparr>, zero_record\<lparr>timestamp := 2\<rparr>] - 0 \<le> unat (16::u32) \<and>
   fst (fault_get_log sample_checksum
          (store_all sample_checksum [zero_record\<lparr>timestamp := 1\<rparr>, zero_record\<lparr>timestamp := 2\<rparr>]
             (fault_clear_log \<lparr>g_fault_log = (\<lambda>n. zero_record), g_fault_count = 5, events = []\<rparr>))
          (\<lambda>n. zero_record) 16) 0 =
     zero_record\<lparr>timestamp := 1, crc := 1\<rparr>"
proof -
  let ?init = "fault_clear_log \<lparr>g_fault_log = (\<lambda>n. zero_record), g_fault_count = 5, events = []\<rparr>"
  let ?rs = "[zero_record\<lparr>timestamp := 1\<rparr>, zero_record\<lparr>timestamp := 2\<rparr>]"
  have h1: "unat (g_fault_count ?init) + length ?rs < 2 ^ 32"
    by (simp add: fault_clear_log_count)
  have h2: "0 < length ?rs" by simp
  have h3: "length ?rs - 0 \<le> 16" by simp
  have h4: "length ?rs - 0 \<le> unat (16::u32)" by simp
  have n: "snd (fault_get_log sample_checksum (store_all sample_checksum ?rs ?init) (\<lambda>n. zero_record) 16) = 2"
    by (simp add: fault_get_log_count store_fault_record_count fault_clear_log_count)
  have sum: "sample_checksum (record_bytes (zero_record\<lparr>timestamp := 1\<rparr>)) = 1"
    by (simp add: sample_checksum_def record_bytes_def le_bytes_def zero_record_def)
  note t = appended_record_read_back [OF h1 h2 h3 h4, of sample_checksum "\<lambda>n. zero_record"]
  have pos: "unat (snd (fault_get_log sample_checksum (store_all sample_checksum ?rs ?init) (\<lambda>n. zero_record) 16))
      - (length ?rs - 0) = 0"
    unfolding n by simp
  have "fst (fault_get_log sample_checksum (store_all sample_checksum ?rs ?init) (\<lambda>n. zero_record) 16) 0 =
      (?rs ! 0)\<lparr>crc := sample_checksum (record_bytes (?rs ! 0))\<rparr>"
    using t unfolding pos by (rule conjunct2 [THEN conjunct1])
  then have "fst (fault_get_log sample_checksum (store_all sample_checksum ?rs ?init) (\<lambda>n. zero_record) 16) 0 =
      zero_record\<lparr>timestamp := 1, crc := 1\<rparr>"
    by (simp add: sum)
  with h1 h2 h3 h4 show ?thesis
    by (intro conjI)
qed


text \<open>A log whose only record has a wrong checksum, read into a buffer whose entry holds
  other data: the entry keeps that data except for the two marked fields.\<close>

theorem read_marks_corrupt_entries_witness:
  "fault_get_log sample_checksum
     \<lparr>g_fault_log = (\<lambda>n. zero_record\<lparr>pc := 0x08001234, timestamp := 77, crc := 5\<rparr>),
      g_fault_count = 1, events = []\<rparr>
     (\<lambda>n. zero_record\<lparr>r0 := 9, pc := 0x20000000, timestamp := 3\<rparr>) 4 =
   ((\<lambda>n. zero_record\<lparr>r0 := 9, pc := 0x20000000, timestamp := 3\<rparr>)
      (0 := zero_record\<lparr>r0 := 9, pc := 0xDEADBEEF, timestamp := 0\<rparr>), 1)"
proof -
  let ?s = "\<lparr>g_fault_log = (\<lambda>n. zero_record\<lparr>pc := 0x08001234, timestamp := 77, crc := 5\<rparr>),
      g_fault_count = 1, events = []\<rparr>"
  let ?b = "\<lambda>n::nat. zero_record\<lparr>r0 := 9, pc := 0x20000000, timestamp := 3\<rparr>"
  note t = read_marks_corrupt_entries [of sample_checksum ?s ?b 4]
  have n: "snd (fault_get_log sample_checksum ?s ?b 4) = 1"
    using t by simp
  have bad: "\<not> record_intact sample_checksum (zero_record\<lparr>pc := 0x08001234, timestamp := 77, crc := 5\<rparr>)"
    by (simp add: record_intact_def sample_checksum_def record_bytes_def le_bytes_def zero_record_def)
  have "fst (fault_get_log sample_checksum ?s ?b 4) j =
      (?b(0 := zero_record\<lparr>r0 := 9, pc := 0xDEADBEEF, timestamp := 0\<rparr>)) j" for j
    using t bad unfolding n by (simp add: zero_record_def)
  then have "fst (fault_get_log sample_checksum ?s ?b 4) =
      ?b(0 := zero_record\<lparr>r0 := 9, pc := 0xDEADBEEF, timestamp := 0\<rparr>)"
    by (rule ext)
  with n show ?thesis
    by (simp add: prod_eq_iff)
qed

text \<open>Three records appended to a cleared log: a read of 2 returns the last two, and a read
  of 64, above the capacity, returns all three, oldest first.\<close>

theorem read_recent_window_witness:
  "length [zero_record\<lparr>timestamp := 1\<rparr>, zero_record\<lparr>timestamp := 2\<rparr>,
      zero_record\<lparr>timestamp := 3\<rparr>] < 2 ^ 32 \<and>
   min (unat (2::u32)) (length [zero_record\<lparr>timestamp := 1\<rparr>, zero_record\<lparr>timestamp := 2\<rparr>,
      zero_record\<lparr>timestamp := 3\<rparr>]) \<le> 16 \<and>
   map (fst (fault_get_log sample_checksum
          (store_all sample_checksum [zero_record\<lparr>timestamp := 1\<rparr>, zero_record\<lparr>timestamp := 2\<rparr>,
             zero_record\<lparr>timestamp := 3\<rparr>]
             (fault_clear_log \<lparr>g_fault_log = (\<lambda>n. zero_record), g_fault_count = 5, events = []\<rparr>))
          (\<lambda>n. zero_record) 2)) [0 ..< 2] =
     [zero_record\<lparr>timestamp := 2, crc := 2\<rparr>, zero_record\<lparr>timestamp := 3, crc := 3\<rparr>] \<and>
   min (unat (64::u32)) (length [zero_record\<lparr>timestamp := 1\<rparr>, zero_record\<lparr>timestamp := 2\<rparr>,
      zero_record\<lparr>timestamp := 3\<rparr>]) \<le> 16 \<and>
   unat (snd (fault_get_log sample_checksum
          (store_all sample_checksum [zero_record\<lparr>timestamp := 1\<rparr>, zero_record\<lparr>timestamp := 2\<rparr>,
             zero_record\<lparr>timestamp := 3\<rparr>]
             (fault_clear_log \<lparr>g_fault_log = (\<lambda>n. zero_record), g_fault_count = 5, events = []\<rparr>))
          (\<lambda>n. zero_record) 64)) = 3 \<and>
   map (fst (fault_get_log sample_checksum
          (store_all sample_checksum [zero_record\<lparr>timestamp := 1\<rparr>, zero_record\<lparr>timestamp := 2\<rparr>,
             zero_record\<lparr>timestamp := 3\<rparr>]
             (fault_clear_log \<lparr>g_fault_log = (\<lambda>n. zero_record), g_fault_count = 5, events = []\<rparr>))
          (\<lambda>n. zero_record) 64)) [0 ..< 3] =
     [zero_record\<lparr>timestamp := 1, crc := 1\<rparr>, zero_record\<lparr>timestamp := 2, crc := 2\<rparr>,
      zero_record\<lparr>timestamp := 3, crc := 3\<rparr>]"
proof -
  let ?st = "\<lparr>g_fault_log = (\<lambda>n. zero_record), g_fault_count = 5, events = []\<rparr>"
  let ?rs = "[zero_record\<lparr>timestamp := 1\<rparr>, zero_record\<lparr>timestamp := 2\<rparr>,
      zero_record\<lparr>timestamp := 3\<rparr>]"
  let ?r = "fault_get_log sample_checksum (store_all sample_checksum ?rs (fault_clear_log ?st)) (\<lambda>n. zero_record) 2"
  let ?q = "fault_get_log sample_checksum (store_all sample_checksum ?rs (fault_clear_log ?st)) (\<lambda>n. zero_record) 64"
  have h1: "length ?rs < 2 ^ 32" by simp
  have h2: "min (unat (2::u32)) (length ?rs) \<le> 16" by simp
  have h3: "min (unat (64::u32)) (length ?rs) \<le> 16" by simp
  note t = read_recent_window [OF h1 h2, of sample_checksum ?st "\<lambda>n. zero_record"]
  note u = read_recent_window [OF h1 h3, of sample_checksum ?st "\<lambda>n. zero_record"]
  have n: "unat (snd ?r) = 2"
    using t by simp
  have m: "unat (snd ?q) = 3"
    using u by simp
  have sums: "sample_checksum (record_bytes (zero_record\<lparr>timestamp := 1\<rparr>)) = 1"
      "sample_checksum (record_bytes (zero_record\<lparr>timestamp := 2\<rparr>)) = 2"
      "sample_checksum (record_bytes (zero_record\<lparr>timestamp := 3\<rparr>)) = 3"
    by (simp_all add: sample_checksum_def record_bytes_def le_bytes_def zero_record_def)
  have "map (fst ?r) [0 ..< 2] = map (stored sample_checksum) (drop (length ?rs - 2) ?rs)"
    using t unfolding n by (rule conjunct2)
  then have two: "map (fst ?r) [0 ..< 2] =
      [zero_record\<lparr>timestamp := 2, crc := 2\<rparr>, zero_record\<lparr>timestamp := 3, crc := 3\<rparr>]"
    by (simp add: stored_def sums)
  have "map (fst ?q) [0 ..< 3] = map (stored sample_checksum) (drop (length ?rs - 3) ?rs)"
    using u unfolding m by (rule conjunct2)
  then have three: "map (fst ?q) [0 ..< 3] =
      [zero_record\<lparr>timestamp := 1, crc := 1\<rparr>, zero_record\<lparr>timestamp := 2, crc := 2\<rparr>,
       zero_record\<lparr>timestamp := 3, crc := 3\<rparr>]"
    by (simp add: stored_def sums)
  from h1 h2 two h3 m three show ?thesis
    by (intro conjI)
qed

section \<open>Properties of the watchdog\<close>

lemma ctor_timeout_in_range: "timeout_in_range (fst (Watchdog_ctor t tr))"
  by (auto simp add: Watchdog_ctor_def timeout_in_range_def WDT_DEFAULT_TIMEOUT_MS_def Let_def
      word_le_nat_alt word_less_nat_alt)

lemma start_timeout: "m_timeout_ms (fst (snd (start hw now (w, tr)))) = m_timeout_ms w"
  by (simp add: start_def)

lemma kick_timeout: "m_timeout_ms (fst (snd (kick hw now (w, tr)))) = m_timeout_ms w"
  by (simp add: kick_def Let_def)

lemma wd_step_timeout: "m_timeout_ms (fst (wd_step hw c st)) = m_timeout_ms (fst st)"
  by (cases c; cases st) (simp_all add: start_timeout kick_timeout)

lemma wd_run_timeout: "m_timeout_ms (fst (wd_run hw cs st)) = m_timeout_ms (fst st)"
  by (induction cs arbitrary: st) (simp_all add: wd_step_timeout)

lemma reachable_timeout_in_range:
  "timeout_in_range (fst (wd_run hw cs (Watchdog_ctor t tr)))"
  using ctor_timeout_in_range [of t tr]
  by (simp add: timeout_in_range_def wd_run_timeout)

lemma interval_bound:
  fixes T :: u32
  assumes "10 \<le> T" "T \<le> 1000"
  shows "unat (T div 2 + (T div 2 * 10) div 100) \<le> 550"
proof -
  have T: "unat T \<le> 1000" using assms(2) by (simp add: word_le_nat_alt)
  have e: "unat (T div 2) = unat T div 2" by (simp add: unat_div)
  have m: "unat (T div 2 * 10) = unat T div 2 * 10"
    using T by (simp add: unat_word_ariths e)
  have t: "unat ((T div 2 * 10) div 100) = (unat T div 2 * 10) div 100"
    by (simp add: unat_div m)
  have "unat (T div 2 + (T div 2 * 10) div 100) = unat T div 2 + (unat T div 2 * 10) div 100"
    using T by (simp add: unat_word_ariths e t)
  then show ?thesis using T by simp
qed


lemma interval_no_wrap:
  fixes T :: u32
  assumes "10 \<le> T" "T \<le> 1000"
  shows "T div 2 \<le> T div 2 + (T div 2 * 10) div 100"
    and "T div 2 + (T div 2 * 10) div 100 < T div 2 + (T div 2 * 10) div 100 + 1"
proof -
  let ?x = "T div 2 + (T div 2 * 10) div 100"
  have b: "unat ?x \<le> 550" using assms by (rule interval_bound)
  have T: "unat T \<le> 1000" using assms(2) by (simp add: word_le_nat_alt)
  have e: "unat (T div 2) = unat T div 2" by (simp add: unat_div)
  have m: "unat (T div 2 * 10) = unat T div 2 * 10"
    using T by (simp add: unat_word_ariths e)
  have t: "unat ((T div 2 * 10) div 100) = (unat T div 2 * 10) div 100"
    by (simp add: unat_div m)
  have x: "unat ?x = unat T div 2 + (unat T div 2 * 10) div 100"
    using T by (simp add: unat_word_ariths e t)
  show "T div 2 \<le> ?x"
    by (simp add: word_le_nat_alt x e)
  have g: "y < y + 1" if "unat y \<le> 550" for y :: u32
  proof -
    have "unat y + unat (1::u32) < 2 ^ LENGTH(32)" using that by simp
    then have "unat (y + 1) = unat y + unat (1::u32)"
      by (rule unat_add_lem [THEN iffD1])
    then show ?thesis by (simp add: word_less_nat_alt)
  qed
  show "?x < ?x + 1"
    using b by (rule g)
qed

text \<open>
  Claim C6. Take any watchdog reached from construction by calls of \<^verbatim>\<open>start\<close> and \<^verbatim>\<open>kick\<close>,
  and armed; its timeout \<open>T\<close> is then between 10 and 1000. A \<^verbatim>\<open>kick\<close> whose elapsed time
  \<open>now - m_last_kick_time\<close> is exactly \<open>T div 2\<close> returns true and leaves the late counter
  as it was; one whose elapsed time is \<open>T div 2 + (T div 2 * 10) div 100 + 1\<close> returns false
  and adds one to the late counter. Whatever the time, the last event of the call is the
  write of the key to the hardware \<^verbatim>\<open>KICK\<close> register, preceded only by the late-kick
  warning when the kick is late (no safe-state call), the watchdog stays armed, and the
  time of the call becomes the new reference.
\<close>

theorem kick_timing:
  assumes reach: "(w, tr) = wd_run hw calls (Watchdog_ctor t tr0)"
    and armed: "m_started w"
  shows "(now - m_last_kick_time w = m_timeout_ms w div 2 \<longrightarrow>
            fst (kick hw now (w, tr)) \<and>
            m_late_kick_count (fst (snd (kick hw now (w, tr)))) = m_late_kick_count w) \<and>
         (now - m_last_kick_time w =
            m_timeout_ms w div 2 + (m_timeout_ms w div 2 * 10) div 100 + 1 \<longrightarrow>
            \<not> fst (kick hw now (w, tr)) \<and>
            m_late_kick_count (fst (snd (kick hw now (w, tr)))) = m_late_kick_count w + 1) \<and>
         snd (snd (kick hw now (w, tr))) =
           tr @ (if fst (kick hw now (w, tr)) then []
                 else [DiagWarn WDT_LATE_KICK [now - m_last_kick_time w, m_timeout_ms w div 2]]) @
           [HwWriteKICK (WDT_KICK_KEY hw)] \<and>
         m_started (fst (snd (kick hw now (w, tr)))) \<and>
         m_last_kick_time (fst (snd (kick hw now (w, tr)))) = now"
proof -
  have "timeout_in_range (fst (wd_run hw calls (Watchdog_ctor t tr0)))"
    by (rule reachable_timeout_in_range)
  then have r: "10 \<le> m_timeout_ms w" "m_timeout_ms w \<le> 1000"
    using reach [symmetric] by (simp_all add: timeout_in_range_def)
  note nw = interval_no_wrap [OF r]
  have on_time: "\<not> m_timeout_ms w div 2 + (m_timeout_ms w div 2 * 10) div 100 < m_timeout_ms w div 2"
    using nw(1) by simp
  show ?thesis
    using armed on_time nw(2)
    by (simp add: kick_def Let_def WDT_TIMING_TOLERANCE_PERCENT_def)
qed

text \<open>Timeout 100 ms, started at time 1000: a kick at 1050 (elapsed 50) is on time, a kick
  at 1056 (elapsed 50 + 5 + 1) is late and still reaches the hardware.\<close>

theorem kick_timing_witness:
  "m_started (fst (wd_run \<lparr>WDT_CLOCK_HZ = 32768, WDT_CTRL_ENABLE = 1, WDT_CTRL_RESET_ON_TIMEOUT = 2,
        WDT_KICK_KEY = 0xA5\<rparr> [Start 1000] (Watchdog_ctor 100 []))) \<and>
   m_late_kick_count (fst (snd (kick \<lparr>WDT_CLOCK_HZ = 32768, WDT_CTRL_ENABLE = 1,
        WDT_CTRL_RESET_ON_TIMEOUT = 2, WDT_KICK_KEY = 0xA5\<rparr> 1050
      (wd_run \<lparr>WDT_CLOCK_HZ = 32768, WDT_CTRL_ENABLE = 1, WDT_CTRL_RESET_ON_TIMEOUT = 2,
        WDT_KICK_KEY = 0xA5\<rparr> [Start 1000] (Watchdog_ctor 100 []))))) = 0 \<and>
   m_late_kick_count (fst (snd (kick \<lparr>WDT_CLOCK_HZ = 32768, WDT_CTRL_ENABLE = 1,
        WDT_CTRL_RESET_ON_TIMEOUT = 2, WDT_KICK_KEY = 0xA5\<rparr> 1056
      (wd_run \<lparr>WDT_CLOCK_HZ = 32768, WDT_CTRL_ENABLE = 1, WDT_CTRL_RESET_ON_TIMEOUT = 2,
        WDT_KICK_KEY = 0xA5\<rparr> [Start 1000] (Watchdog_ctor 100 []))))) = 1 \<and>
   snd (snd (kick \<lparr>WDT_CLOCK_HZ = 32768, WDT_CTRL_ENABLE = 1,
        WDT_CTRL_RESET_ON_TIMEOUT = 2, WDT_KICK_KEY = 0xA5\<rparr> 1056
      (wd_run \<lparr>WDT_CLOCK_HZ = 32768, WDT_CTRL_ENABLE = 1, WDT_CTRL_RESET_ON_TIMEOUT = 2,
        WDT_KICK_KEY = 0xA5\<rparr> [Start 1000] (Watchdog_ctor 100 [])))) =
     [HwWriteTIMEOUT 3276, HwWriteCTRL 3, DiagInfo WDT_STARTED [100],
      DiagWarn WDT_LATE_KICK [56, 50], HwWriteKICK 0xA5]"
proof -
  let ?hw = "\<lparr>WDT_CLOCK_HZ = 32768, WDT_CTRL_ENABLE = 1, WDT_CTRL_RESET_ON_TIMEOUT = 2,
        WDT_KICK_KEY = 0xA5\<rparr>"
  let ?w = "\<lparr>m_timeout_ms = 100, m_started = True, m_last_kick_time = 1000,
        m_kick_count = 0, m_late_kick_count = 0\<rparr>"
  let ?tr = "[HwWriteTIMEOUT 3276, HwWriteCTRL 3, DiagInfo WDT_STARTED [100]]"
  have run: "(?w, ?tr) = wd_run ?hw [Start 1000] (Watchdog_ctor 100 [])"
    by (simp add: Watchdog_ctor_def start_def ms_to_ticks_def Let_def)
  have armed: "m_started ?w" by simp
  show ?thesis
    unfolding run [symmetric]
    using kick_timing [OF run armed, of 1050] kick_timing [OF run armed, of 1056]
    by (simp add: kick_def Let_def WDT_TIMING_TOLERANCE_PERCENT_def)
qed

text \<open>
  Claim C7. \<^verbatim>\<open>start\<close> on an armed watchdog returns false, leaves every member of the object
  as it was, and adds exactly one event, the warning \<^verbatim>\<open>WDT_ALREADY_STARTED\<close>: no hardware
  register is written.
\<close>

theorem duplicate_start_rejected:
  "m_started w \<Longrightarrow> start hw now (w, tr) = (False, w, tr @ [DiagWarn WDT_ALREADY_STARTED []])"
  by (simp add: start_def)

theorem duplicate_start_rejected_witness:
  "m_started (fst (snd (start \<lparr>WDT_CLOCK_HZ = 32768, WDT_CTRL_ENABLE = 1, WDT_CTRL_RESET_ON_TIMEOUT = 2,
        WDT_KICK_KEY = 0xA5\<rparr> 1000 (Watchdog_ctor 100 [])))) \<and>
   start \<lparr>WDT_CLOCK_HZ = 32768, WDT_CTRL_ENABLE = 1, WDT_CTRL_RESET_ON_TIMEOUT = 2,
        WDT_KICK_KEY = 0xA5\<rparr> 2000
     (snd (start \<lparr>WDT_CLOCK_HZ = 32768, WDT_CTRL_ENABLE = 1, WDT_CTRL_RESET_ON_TIMEOUT = 2,
        WDT_KICK_KEY = 0xA5\<rparr> 1000 (Watchdog_ctor 100 []))) =
     (False,
      \<lparr>m_timeout_ms = 100, m_started = True, m_last_kick_time = 1000,
        m_kick_count = 0, m_late_kick_count = 0\<rparr>,
      [HwWriteTIMEOUT 3276, HwWriteCTRL 3, DiagInfo WDT_STARTED [100],
       DiagWarn WDT_ALREADY_STARTED []])"
proof -
  let ?hw = "\<lparr>WDT_CLOCK_HZ = 32768, WDT_CTRL_ENABLE = 1, WDT_CTRL_RESET_ON_TIMEOUT = 2,
        WDT_KICK_KEY = 0xA5\<rparr>"
  let ?w = "\<lparr>m_timeout_ms = 100, m_started = True, m_last_kick_time = 1000,
        m_kick_count = 0, m_late_kick_count = 0\<rparr>"
  let ?tr = "[HwWriteTIMEOUT 3276, HwWriteCTRL 3, DiagInfo WDT_STARTED [100]]"
  have first: "snd (start ?hw 1000 (Watchdog_ctor 100 [])) = (?w, ?tr)"
    by (simp add: Watchdog_ctor_def start_def ms_to_ticks_def Let_def)
  have armed: "m_started ?w" by simp
  show ?thesis
    using duplicate_start_rejected [OF armed, of ?hw 2000 ?tr]
    by (simp add: first)
qed

text \<open>
  Claim C8, as the constructor has it. With a timeout below 10 or above 1000 the
  constructor logs the error \<^verbatim>\<open>WDT_INVALID_TIMEOUT\<close> with the rejected value and builds
  the object with the default timeout of 100 ms; with a timeout in range it logs nothing
  and keeps the timeout. So the default is never substituted without the diagnostic. The
  object is all the constructor yields: there is no status result.
\<close>

theorem ctor_out_of_range_logged:
  "(timeout_ms < 10 \<or> 1000 < timeout_ms \<longrightarrow>
      Watchdog_ctor timeout_ms tr =
        (\<lparr>m_timeout_ms = WDT_DEFAULT_TIMEOUT_MS, m_started = False, m_last_kick_time = 0,
          m_kick_count = 0, m_late_kick_count = 0\<rparr>,
         tr @ [DiagError WDT_INVALID_TIMEOUT [timeout_ms]])) \<and>
   (10 \<le> timeout_ms \<and> timeout_ms \<le> 1000 \<longrightarrow>
      Watchdog_ctor timeout_ms tr =
        (\<lparr>m_timeout_ms = timeout_ms, m_started = False, m_last_kick_time = 0,
          m_kick_count = 0, m_late_kick_count = 0\<rparr>, tr))"
  by (auto simp add: Watchdog_ctor_def Let_def)

theorem ctor_out_of_range_logged_witness:
  "((5::u32) < 10 \<or> 1000 < (5::u32)) \<and>
   Watchdog_ctor 5 [] =
     (\<lparr>m_timeout_ms = 100, m_started = False, m_last_kick_time = 0,
       m_kick_count = 0, m_late_kick_count = 0\<rparr>,
      [DiagError WDT_INVALID_TIMEOUT [5]]) \<and>
   (10::u32) \<le> 250 \<and> (250::u32) \<le> 1000 \<and>
   Watchdog_ctor 250 [] =
     (\<lparr>m_timeout_ms = 250, m_started = False, m_last_kick_time = 0,
       m_kick_count = 0, m_late_kick_count = 0\<rparr>, [])"
  using ctor_out_of_range_logged [of 5 "[]"] ctor_out_of_range_logged [of 250 "[]"]
  by (simp add: WDT_DEFAULT_TIMEOUT_MS_def)

text \<open>The object constructed from the invalid timeout 5 is equal, member for member, to
  the one constructed from the valid timeout 100: nothing the constructor returns tells
  the caller that the configuration was rejected.\<close>

theorem ctor_no_status_result:
  "fst (Watchdog_ctor 5 []) = fst (Watchdog_ctor 100 [])"
  by (simp add: Watchdog_ctor_def Let_def WDT_DEFAULT_TIMEOUT_MS_def)


lemma unat_inc_le: "unat (x + 1) \<le> unat x + 1" for x :: u32
proof -
  have "unat (x + 1) = (unat x + unat (1::u32)) mod 2 ^ LENGTH(32)"
    by (rule unat_word_ariths(1))
  also have "\<dots> \<le> unat x + unat (1::u32)"
    by (rule mod_less_eq_dividend)
  finally show ?thesis by simp
qed

lemma unat_inc_eq: "unat x + 1 < 2 ^ 32 \<Longrightarrow> unat (x + 1) = unat x + 1" for x :: u32
proof -
  assume "unat x + 1 < 2 ^ 32"
  then have "unat x + unat (1::u32) < 2 ^ LENGTH(32)" by simp
  then have "unat (x + 1) = unat x + unat (1::u32)"
    by (rule unat_add_lem [THEN iffD1])
  then show ?thesis by simp
qed

lemma kick_counts:
  "m_kick_count (fst (snd (kick hw now (w, tr)))) =
     (if m_started w then m_kick_count w + 1 else m_kick_count w)"
  "m_late_kick_count (fst (snd (kick hw now (w, tr)))) = m_late_kick_count w \<or>
   m_started w \<and> m_late_kick_count (fst (snd (kick hw now (w, tr)))) = m_late_kick_count w + 1"
  by (simp_all add: kick_def Let_def)

lemma start_counts:
  "m_kick_count (fst (snd (start hw now (w, tr)))) = m_kick_count w"
  "m_late_kick_count (fst (snd (start hw now (w, tr)))) = m_late_kick_count w"
  by (simp_all add: start_def)

lemma wd_step_counters:
  assumes "unat (m_late_kick_count (fst st)) \<le> unat (m_kick_count (fst st))"
    and "unat (m_kick_count (fst st)) + (if is_kick c then 1 else 0) < 2 ^ 32"
  shows "unat (m_late_kick_count (fst (wd_step hw c st)))
           \<le> unat (m_kick_count (fst (wd_step hw c st))) \<and>
         unat (m_kick_count (fst (wd_step hw c st)))
           \<le> unat (m_kick_count (fst st)) + (if is_kick c then 1 else 0)"
proof (cases st)
  case (Pair w tr)
  show ?thesis
  proof (cases c)
    case (Start now)
    then show ?thesis using assms Pair by (simp add: start_counts)
  next
    case (Kick now)
    show ?thesis
    proof (cases "m_started w")
      case False
      then show ?thesis using assms Pair Kick by (simp add: kick_def)
    next
      case True
      have k: "unat (m_kick_count (fst (snd (kick hw now (w, tr))))) = unat (m_kick_count w) + 1"
        using True assms(2) Pair Kick by (simp add: kick_counts(1) unat_inc_eq)
      have "unat (m_late_kick_count (fst (snd (kick hw now (w, tr))))) \<le> unat (m_late_kick_count w) + 1"
        using kick_counts(2) [of hw now w tr] unat_inc_le [of "m_late_kick_count w"] by auto
      then show ?thesis using k assms(1) Pair Kick by simp
    qed
  qed
qed

lemma wd_run_counters:
  "unat (m_late_kick_count (fst st)) \<le> unat (m_kick_count (fst st)) \<Longrightarrow>
   unat (m_kick_count (fst st)) + length (filter is_kick cs) < 2 ^ 32 \<Longrightarrow>
   unat (m_late_kick_count (fst (wd_run hw cs st))) \<le> unat (m_kick_count (fst (wd_run hw cs st)))"
proof (induction cs arbitrary: st)
  case Nil
  then show ?case by simp
next
  case (Cons c cs)
  have b: "unat (m_kick_count (fst st)) + (if is_kick c then 1 else 0) < 2 ^ 32"
    using Cons.prems(2) by (simp split: if_splits)
  note step = wd_step_counters [OF Cons.prems(1) b, of hw]
  have "unat (m_kick_count (fst (wd_step hw c st))) + length (filter is_kick cs) < 2 ^ 32"
    using step Cons.prems(2) by (simp split: if_splits)
  with step show ?case
    by (simp add: Cons.IH)
qed

text \<open>
  Claim C10, with the bound the 32-bit counters need. In every state reached from
  construction by a sequence of \<^verbatim>\<open>start\<close> and \<^verbatim>\<open>kick\<close> calls with fewer than \<open>2^32\<close> kicks,
  the late counter is at most the kick counter. From any such state \<^verbatim>\<open>kick\<close> adds one to
  the kick counter (a \<^verbatim>\<open>uint32_t\<close> increment) when the watchdog is armed, and leaves both
  counters unchanged when it is not.
\<close>

theorem late_count_bounded:
  assumes "(w, tr) = wd_run hw calls (Watchdog_ctor t tr0)"
    and "length (filter is_kick calls) < 2 ^ 32"
  shows "m_late_kick_count w \<le> m_kick_count w \<and>
         (m_started w \<longrightarrow>
            m_kick_count (fst (snd (kick hw now (w, tr)))) = m_kick_count w + 1) \<and>
         (\<not> m_started w \<longrightarrow>
            m_kick_count (fst (snd (kick hw now (w, tr)))) = m_kick_count w \<and>
            m_late_kick_count (fst (snd (kick hw now (w, tr)))) = m_late_kick_count w)"
proof -
  have z: "m_kick_count (fst (Watchdog_ctor t tr0)) = 0"
      "m_late_kick_count (fst (Watchdog_ctor t tr0)) = 0"
    by (simp_all add: Watchdog_ctor_def Let_def)
  have "unat (m_late_kick_count (fst (wd_run hw calls (Watchdog_ctor t tr0))))
          \<le> unat (m_kick_count (fst (wd_run hw calls (Watchdog_ctor t tr0))))"
    using assms(2) by (intro wd_run_counters) (simp_all add: z)
  then have "m_late_kick_count w \<le> m_kick_count w"
    using assms(1) [symmetric] by (simp add: word_le_nat_alt)
  then show ?thesis
    by (simp add: kick_def Let_def)
qed

lemma repeat_kick_same_time:
  "m_started w \<Longrightarrow> m_last_kick_time w = now \<Longrightarrow>
   fst (wd_run hw (replicate n (Kick now)) (w, tr)) = w\<lparr>m_kick_count := m_kick_count w + of_nat n\<rparr>"
proof (induction n arbitrary: w tr)
  case 0
  then show ?case by simp
next
  case (Suc n)
  have k: "snd (kick hw now (w, tr)) =
      (w\<lparr>m_kick_count := m_kick_count w + 1\<rparr>, tr @ [HwWriteKICK (WDT_KICK_KEY hw)])"
    using Suc.prems by (simp add: kick_def Let_def)
  show ?case
    using Suc.prems by (simp add: k Suc.IH add.assoc)
qed

text \<open>Without the bound the order of the counters can fail: \<^verbatim>\<open>m_kick_count\<close> is a
  \<^verbatim>\<open>uint32_t\<close> and wraps. Timeout 100 ms, started at time 0, one late kick at time 100 and
  then \<open>2^32 - 1\<close> further kicks at that same time (each on time): the kick counter is
  back at 0 while the late counter is 1.\<close>

theorem late_count_exceeds_after_wrap:
  "m_kick_count (fst (wd_run \<lparr>WDT_CLOCK_HZ = 32768, WDT_CTRL_ENABLE = 1, WDT_CTRL_RESET_ON_TIMEOUT = 2,
        WDT_KICK_KEY = 0xA5\<rparr>
      (Start 0 # Kick 100 # replicate (2 ^ 32 - 1) (Kick 100)) (Watchdog_ctor 100 []))) = 0 \<and>
   m_late_kick_count (fst (wd_run \<lparr>WDT_CLOCK_HZ = 32768, WDT_CTRL_ENABLE = 1, WDT_CTRL_RESET_ON_TIMEOUT = 2,
        WDT_KICK_KEY = 0xA5\<rparr>
      (Start 0 # Kick 100 # replicate (2 ^ 32 - 1) (Kick 100)) (Watchdog_ctor 100 []))) = 1"
proof -
  let ?hw = "\<lparr>WDT_CLOCK_HZ = 32768, WDT_CTRL_ENABLE = 1, WDT_CTRL_RESET_ON_TIMEOUT = 2,
        WDT_KICK_KEY = 0xA5\<rparr>"
  let ?w = "\<lparr>m_timeout_ms = 100, m_started = True, m_last_kick_time = 100,
        m_kick_count = 1, m_late_kick_count = 1\<rparr>"
  obtain tr where two: "wd_run ?hw [Start 0, Kick 100] (Watchdog_ctor 100 []) = (?w, tr)"
    by (simp add: Watchdog_ctor_def start_def kick_def Let_def WDT_TIMING_TOLERANCE_PERCENT_def)
  have split: "wd_run ?hw (Start 0 # Kick 100 # replicate (2 ^ 32 - 1) (Kick 100)) (Watchdog_ctor 100 [])
      = wd_run ?hw (replicate (2 ^ 32 - 1) (Kick 100)) (?w, tr)"
    using two by simp
  have "fst (wd_run ?hw (replicate (2 ^ 32 - 1) (Kick 100)) (?w, tr)) =
      ?w\<lparr>m_kick_count := m_kick_count ?w + of_nat (2 ^ 32 - 1)\<rparr>"
    by (rule repeat_kick_same_time) simp_all
  then show ?thesis
    unfolding split by simp
qed


theorem late_count_bounded_witness:
  "length (filter is_kick [Start 0, Kick 100, Kick 140]) < 2 ^ 32 \<and>
   wd_run \<lparr>WDT_CLOCK_HZ = 32768, WDT_CTRL_ENABLE = 1, WDT_CTRL_RESET_ON_TIMEOUT = 2,
        WDT_KICK_KEY = 0xA5\<rparr> [Start 0, Kick 100, Kick 140] (Watchdog_ctor 100 []) =
     (\<lparr>m_timeout_ms = 100, m_started = True, m_last_kick_time = 140,
        m_kick_count = 2, m_late_kick_count = 1\<rparr>,
      [HwWriteTIMEOUT 3276, HwWriteCTRL 3, DiagInfo WDT_STARTED [100],
       DiagWarn WDT_LATE_KICK [100, 50], HwWriteKICK 0xA5, HwWriteKICK 0xA5]) \<and>
   (1::u32) \<le> 2 \<and>
   m_kick_count (fst (snd (kick \<lparr>WDT_CLOCK_HZ = 32768, WDT_CTRL_ENABLE = 1,
        WDT_CTRL_RESET_ON_TIMEOUT = 2, WDT_KICK_KEY = 0xA5\<rparr> 180
      (\<lparr>m_timeout_ms = 100, m_started = True, m_last_kick_time = 140,
        m_kick_count = 2, m_late_kick_count = 1\<rparr>,
       [HwWriteTIMEOUT 3276, HwWriteCTRL 3, DiagInfo WDT_STARTED [100],
        DiagWarn WDT_LATE_KICK [100, 50], HwWriteKICK 0xA5, HwWriteKICK 0xA5])))) = 3"
proof -
  let ?hw = "\<lparr>WDT_CLOCK_HZ = 32768, WDT_CTRL_ENABLE = 1, WDT_CTRL_RESET_ON_TIMEOUT = 2,
        WDT_KICK_KEY = 0xA5\<rparr>"
  let ?w = "\<lparr>m_timeout_ms = 100, m_started = True, m_last_kick_time = 140,
        m_kick_count = 2, m_late_kick_count = 1\<rparr>"
  let ?tr = "[HwWriteTIMEOUT 3276, HwWriteCTRL 3, DiagInfo WDT_STARTED [100],
       DiagWarn WDT_LATE_KICK [100, 50], HwWriteKICK 0xA5, HwWriteKICK 0xA5]"
  have run: "(?w, ?tr) = wd_run ?hw [Start 0, Kick 100, Kick 140] (Watchdog_ctor 100 [])"
    by (simp add: Watchdog_ctor_def start_def kick_def ms_to_ticks_def Let_def
        WDT_TIMING_TOLERANCE_PERCENT_def)
  have few: "length (filter is_kick [Start 0, Kick 100, Kick 140]) < 2 ^ 32"
    by simp
  show ?thesis
    unfolding run [symmetric]
    using few late_count_bounded [OF run few, of 180]
    by simp
qed

end
